theory Spec2Isabelle
  imports Complex_Main "HOL-Library.Word" "HOL-Library.List_Lexorder"
begin

section \<open>JavaScript strings and the built-ins the code calls\<close>

text \<open>
  A JavaScript string is a sequence of UTF-16 code units: \<open>length\<close>, \<open>substring\<close>,
  \<open>charCodeAt\<close>, \<open>startsWith\<close> and \<open>split\<close> all count code units, while
  \<open>new TextEncoder().encode(s).length\<close> counts the bytes of the UTF-8 encoding.
  Both views are needed below, so a string is a list of 16-bit words.
\<close>

type_synonym codeunit = "16 word"
type_synonym jsstring = "codeunit list"

definition js :: "string \<Rightarrow> jsstring" where
  "js s = map of_char s"

text \<open>A string in a boolean position is true exactly when it is neither undefined nor empty.\<close>

definition truthy :: "jsstring option \<Rightarrow> bool" where
  "truthy v = (case v of None \<Rightarrow> False | Some s \<Rightarrow> s \<noteq> [])"

definition startsWith :: "jsstring \<Rightarrow> jsstring \<Rightarrow> bool" where
  "startsWith s p = (take (length p) s = p)"

definition endsWith :: "jsstring \<Rightarrow> jsstring \<Rightarrow> bool" where
  "endsWith s p = (length p \<le> length s \<and> drop (length s - length p) s = p)"

fun includes_js :: "jsstring \<Rightarrow> jsstring \<Rightarrow> bool" where
  "includes_js [] p = (p = [])"
| "includes_js (c # cs) p = (startsWith (c # cs) p \<or> includes_js cs p)"

text \<open>\<open>s.split(sep)\<close> for a separator of one code unit; the empty string gives one empty piece.\<close>

fun split_js :: "codeunit \<Rightarrow> jsstring \<Rightarrow> jsstring list" where
  "split_js sep [] = [[]]"
| "split_js sep (c # cs) =
     (if c = sep then [] # split_js sep cs
      else (case split_js sep cs of
              [] \<Rightarrow> [[c]]
            | p # ps \<Rightarrow> (c # p) # ps))"

fun join_js :: "jsstring \<Rightarrow> jsstring list \<Rightarrow> jsstring" where
  "join_js sep [] = []"
| "join_js sep [x] = x"
| "join_js sep (x # y # ys) = x @ sep @ join_js sep (y # ys)"

text \<open>\<open>xs.pop()\<close> on a fresh array: its last element, undefined when there is none.\<close>

definition pop :: "jsstring list \<Rightarrow> jsstring option" where
  "pop xs = (if xs = [] then None else Some (last xs))"

text \<open>\<open>v || ""\<close>\<close>

definition orEmpty :: "jsstring option \<Rightarrow> jsstring" where
  "orEmpty v = (case v of None \<Rightarrow> [] | Some s \<Rightarrow> s)"

text \<open>The white space and line terminators that \<open>trim\<close> removes.\<close>

definition isWhiteSpace :: "codeunit \<Rightarrow> bool" where
  "isWhiteSpace c =
     (c \<in> set [0x9, 0xA, 0xB, 0xC, 0xD, 0x20, 0xA0, 0x1680, 0x2028, 0x2029, 0x202F,
                0x205F, 0x3000, 0xFEFF]
      \<or> (0x2000 \<le> c \<and> c \<le> 0x200A))"

definition trim :: "jsstring \<Rightarrow> jsstring" where
  "trim s = rev (dropWhile isWhiteSpace (rev (dropWhile isWhiteSpace s)))"

text \<open>
  \<open>toLowerCase\<close>, and the case folding of a regular expression with the \<open>i\<close> flag, on the
  letters A to Z. Code units outside that range are kept. For the \<open>i\<close> flag (without
  \<open>u\<close>) this is exact on every string, since a code unit of 128 or more is never folded
  onto an ASCII one there. For \<open>toLowerCase\<close> it is exact on strings of ASCII code units,
  and in \<open>shouldSkipFile\<close> and \<open>mapGitHubErrorToStatus\<close>, where the result is only
  compared with ASCII words that no other character folds onto. The Unicode case mappings
  of other characters are not modelled, so the extension filter of \<open>shouldIncludeFile\<close>
  and \<open>queryExtsOf\<close> follow the source on ASCII extensions only; the theorems below take
  the selection by the filters as it comes and use nothing about such extensions.
\<close>

definition lowerUnit :: "codeunit \<Rightarrow> codeunit" where
  "lowerUnit c = (if 0x41 \<le> c \<and> c \<le> 0x5A then c + 0x20 else c)"

definition toLowerCase :: "jsstring \<Rightarrow> jsstring" where
  "toLowerCase s = map lowerUnit s"

text \<open>
  \<open>new TextEncoder().encode(s).length\<close>: one byte below 0x80, two below 0x800, four for a
  surrogate pair, three otherwise (a lone surrogate is encoded as U+FFFD, three bytes).
\<close>

definition isHighSurrogate :: "codeunit \<Rightarrow> bool" where
  "isHighSurrogate c = (0xD800 \<le> c \<and> c \<le> 0xDBFF)"

definition isLowSurrogate :: "codeunit \<Rightarrow> bool" where
  "isLowSurrogate c = (0xDC00 \<le> c \<and> c \<le> 0xDFFF)"

fun utf8Length :: "jsstring \<Rightarrow> nat" where
  "utf8Length [] = 0"
| "utf8Length [c] = (if c < 0x80 then 1 else if c < 0x800 then 2 else 3)"
| "utf8Length (c # d # ds) =
     (if c < 0x80 then 1 + utf8Length (d # ds)
      else if c < 0x800 then 2 + utf8Length (d # ds)
      else if isHighSurrogate c \<and> isLowSurrogate d then 4 + utf8Length ds
      else 3 + utf8Length (d # ds))"

text \<open>A natural number printed in decimal, as string interpolation prints it.\<close>

fun decimal :: "nat \<Rightarrow> jsstring" where
  "decimal n =
     (if n < 10 then [of_nat (48 + n)]
      else decimal (n div 10) @ [of_nat (48 + n mod 10)])"

declare decimal.simps [simp del]

text \<open>
  \<open>(n / 1024).toFixed(2)\<close> for a byte count \<open>n\<close>. The quotient is a double, but \<open>n\<close> is
  an integer below \<open>2^53\<close> and 1024 is a power of two, so the division is exact;
  \<open>toFixed(2)\<close> then takes the integer number of hundredths nearest to that exact value,
  the larger one on a tie. So the digits are those of \<open>(100 n + 512) div 1024\<close>.
\<close>

definition kbToFixed2 :: "nat \<Rightarrow> jsstring" where
  "kbToFixed2 n =
     (let h = (n * 100 + 512) div 1024
      in decimal (h div 100) @ js ''.'' @ [of_nat (48 + h mod 100 div 10), of_nat (48 + h mod 10)])"

text \<open>\<open>"  ".repeat(depth)\<close>\<close>

definition repeat_js :: "jsstring \<Rightarrow> nat \<Rightarrow> jsstring" where
  "repeat_js s n = concat (replicate n s)"


section \<open>Constants and small predicates of github.ts\<close>

definition MAX_DISPLAY_FILE_SIZE :: nat where
  "MAX_DISPLAY_FILE_SIZE = 30 * 1024"

definition MAX_FILE_SIZE :: nat where
  "MAX_FILE_SIZE = 500 * 1024"

definition imageExtensions :: "jsstring list" where
  "imageExtensions = map js
     [''.png'', ''.jpg'', ''.jpeg'', ''.gif'', ''.bmp'', ''.ico'', ''.webp'', ''.svg'']"

definition binaryExtensions :: "jsstring list" where
  "binaryExtensions = map js
     [''.zip'', ''.tar'', ''.gz'', ''.rar'', ''.7z'', ''.exe'', ''.dll'', ''.so'', ''.dylib'',
      ''.pdf'', ''.doc'', ''.docx'', ''.xls'', ''.xlsx'', ''.ppt'', ''.pptx'', ''.mp3'',
      ''.mp4'', ''.avi'', ''.mov'', ''.wav'', ''.bin'', ''.dat'', ''.db'', ''.sqlite'']"

subsection \<open>isBinaryContent\<close>

text \<open>The test inside the sampling loop, on one \<open>charCode\<close>.\<close>

definition nonPrintableCode :: "codeunit \<Rightarrow> bool" where
  "nonPrintableCode charCode =
     (charCode = 0 \<or> (charCode < 32 \<and> charCode \<notin> set [9, 10, 13]))"

text \<open>The loop \<open>for (let i = 0; i < sampleSize; i++)\<close> with its counter.\<close>

function countNonPrintable :: "jsstring \<Rightarrow> nat \<Rightarrow> nat \<Rightarrow> nat \<Rightarrow> nat" where
  "countNonPrintable content sampleSize i nonPrintable =
     (if i < sampleSize
      then countNonPrintable content sampleSize (i + 1)
             (if nonPrintableCode (content ! i) then nonPrintable + 1 else nonPrintable)
      else nonPrintable)"
  by pat_completeness auto
termination
  by (relation "measure (\<lambda>(content, sampleSize, i, nonPrintable). sampleSize - i)") auto

declare countNonPrintable.simps [simp del]

text \<open>
  The source returns \<open>nonPrintable / sampleSize > 0.05\<close> on doubles. With
  \<open>1 \<le> sampleSize \<le> 1000\<close> the quotient either equals one twentieth, and then rounds to
  the very double that the literal \<open>0.05\<close> denotes, or differs from it by at least
  \<open>1/20000\<close>, far more than the rounding error; so the comparison holds exactly when
  \<open>sampleSize < 20 * nonPrintable\<close>. For the empty string the quotient is \<open>0 / 0\<close>, NaN,
  and the comparison is false, as is \<open>0 < 20 * 0\<close>.
\<close>

definition isBinaryContent :: "jsstring \<Rightarrow> bool" where
  "isBinaryContent content =
     (let sampleSize = min (length content) 1000;
          nonPrintable = countNonPrintable content sampleSize 0 0
      in sampleSize < 20 * nonPrintable)"

subsection \<open>shouldSkipFile and shouldIncludeFile\<close>

text \<open>The regular expression \<open>/-lock\.|\.lock$/\<close>.\<close>

definition matchesLock :: "jsstring \<Rightarrow> bool" where
  "matchesLock filename = (includes_js filename (js ''-lock.'') \<or> endsWith filename (js ''.lock''))"

text \<open>The regular expression \<open>/readme\.md$/i\<close>.\<close>

definition isReadme :: "jsstring \<Rightarrow> bool" where
  "isReadme path = endsWith (map lowerUnit path) (js ''readme.md'')"

definition shouldSkipFile :: "jsstring \<Rightarrow> nat \<Rightarrow> jsstring \<Rightarrow> bool \<Rightarrow> bool" where
  "shouldSkipFile filename sz content hasTsConfig =
     (let ext = orEmpty (pop (split_js 0x2E (toLowerCase filename)))
      in if matchesLock filename then True
         else if js ''.'' @ ext \<in> set imageExtensions
                 \<or> js ''.'' @ ext \<in> set binaryExtensions then True
         else if hasTsConfig \<and> (endsWith filename (js ''.js'') \<or> endsWith filename (js ''.mjs''))
              then True
         else if MAX_FILE_SIZE < sz then True
         else if content \<noteq> [] \<and> isBinaryContent content then True
         else False)"

definition shouldIncludeFile :: "jsstring \<Rightarrow> jsstring list \<Rightarrow> jsstring list \<Rightarrow> bool" where
  "shouldIncludeFile filename targetDirs targetExts =
     (let matchesDir = list_ex (\<lambda>d. let normalizedDir = (if endsWith d (js ''/'') then d else d @ js ''/'')
                                      in startsWith filename normalizedDir) targetDirs
      in if targetDirs \<noteq> [] \<and> \<not> matchesDir then False
         else if targetExts \<noteq> []
                 \<and> toLowerCase (orEmpty (pop (split_js 0x2E filename))) \<notin> set targetExts
              then False
         else True)"


section \<open>The request, its errors and the resolution of the reference\<close>

text \<open>
  The fields that \<open>processGitHubRepository\<close> takes out of \<open>params\<close>; an absent field is
  \<open>None\<close>.
\<close>

record params =
  p_url :: jsstring
  p_dir :: "jsstring option"
  p_ext :: "jsstring option"
  p_branch :: "jsstring option"
  p_file :: "jsstring option"
  p_mode :: "jsstring option"

text \<open>
  What the function throws: a plain \<open>Error\<close> with its message, or a \<open>GitHubFetchError\<close>
  built from a status and a status text.
\<close>

datatype error = Error jsstring | GitHubFetchError nat jsstring

definition message :: "error \<Rightarrow> jsstring" where
  "message e =
     (case e of
        Error m \<Rightarrow> m
      | GitHubFetchError st txt \<Rightarrow>
          js ''Failed to fetch repository: '' @ decimal st @ js '' '' @ txt)"

text \<open>\<open>a || b\<close> on strings.\<close>

definition orElse :: "jsstring option \<Rightarrow> jsstring \<Rightarrow> jsstring" where
  "orElse v d = (case v of None \<Rightarrow> d | Some s \<Rightarrow> if s \<noteq> [] then s else d)"

definition withTrailingSlash :: "jsstring \<Rightarrow> jsstring" where
  "withTrailingSlash p = (if endsWith p (js ''/'') then p else p @ js ''/'')"

text \<open>
  Lines 55 to 82: the branch, directory scope and file embedded in the path segments after
  owner and repo, as the triple \<open>(pathBranch, pathTargetDirs, pathTargetFile)\<close>.
\<close>

definition pathInfo :: "jsstring list \<Rightarrow> jsstring option \<times> jsstring list \<times> jsstring option" where
  "pathInfo pathSegments =
     (let (pathBranch, pathTargetDirs, pathTargetFile) =
            (if 2 \<le> length pathSegments then
               (let typeSegment = pathSegments ! 0 in
                if typeSegment = js ''tree'' then
                  (let remainingPath = join_js (js ''/'') (drop 2 pathSegments)
                   in (Some (pathSegments ! 1),
                       (if remainingPath \<noteq> [] then [withTrailingSlash remainingPath] else []),
                       None))
                else if typeSegment = js ''blob'' \<and> 3 \<le> length pathSegments then
                  (let filePath = join_js (js ''/'') (drop 2 pathSegments)
                   in (Some (pathSegments ! 1), [],
                       (if filePath \<noteq> [] then Some filePath else None)))
                else (None, [], None))
             else (None, [], None))
      in if \<not> truthy pathBranch \<and> \<not> truthy pathTargetFile \<and> pathTargetDirs = []
            \<and> pathSegments \<noteq> []
         then (let scopePath = join_js (js ''/'') pathSegments
               in (pathBranch,
                   (if scopePath \<noteq> [] then [withTrailingSlash scopePath] else pathTargetDirs),
                   pathTargetFile))
         else (pathBranch, pathTargetDirs, pathTargetFile))"

text \<open>\<open>dir?.split(",").map(d => d.trim()).filter(d => d)\<close>\<close>

definition queryDirsOf :: "jsstring option \<Rightarrow> jsstring list option" where
  "queryDirsOf d =
     (case d of
        None \<Rightarrow> None
      | Some s \<Rightarrow> Some (filter (\<lambda>x. x \<noteq> []) (map trim (split_js 0x2C s))))"

text \<open>\<open>ext?.split(",").map(e => e.trim().toLowerCase()).filter(e => e)\<close>\<close>

definition queryExtsOf :: "jsstring option \<Rightarrow> jsstring list option" where
  "queryExtsOf e =
     (case e of
        None \<Rightarrow> None
      | Some s \<Rightarrow> Some (filter (\<lambda>x. x \<noteq> []) (map (\<lambda>x. toLowerCase (trim x)) (split_js 0x2C s))))"

text \<open>The closure \<open>normalizeDir\<close>, with the \<open>baseDir\<close> it captures as first argument.\<close>

definition normalizeDir :: "jsstring \<Rightarrow> jsstring \<Rightarrow> jsstring" where
  "normalizeDir baseDir d =
     (let trimmed = dropWhile (\<lambda>c. c = 0x2F) d;
          withSlash = (if endsWith trimmed (js ''/'') then trimmed else trimmed @ js ''/'')
      in if baseDir = [] then withSlash
         else if startsWith withSlash baseDir then withSlash
         else baseDir @ withSlash)"

text \<open>The canonical descriptor that lines 38 to 127 compute.\<close>

record resolved =
  r_owner :: jsstring
  r_repo :: jsstring
  r_branch :: jsstring
  r_finalTargetDirs :: "jsstring list"
  r_targetExts :: "jsstring list"
  r_targetFile :: "jsstring option"
  r_isTreeMode :: bool

text \<open>
  \<open>new URL(s)\<close> belongs to the platform, so the resolution takes it as the parameter
  \<open>parseURL\<close>: \<open>Inl\<close> the message of the error thrown for a string that does not parse,
  \<open>Inr\<close> the \<open>pathname\<close> of the parsed URL.
\<close>

definition urlToParse :: "jsstring \<Rightarrow> jsstring" where
  "urlToParse u = (if startsWith u (js ''http'') then u else js ''https://'' @ u)"

definition resolveReference :: "(jsstring \<Rightarrow> jsstring + jsstring) \<Rightarrow> params \<Rightarrow> error + resolved" where
  "resolveReference parseURL ps =
     (case parseURL (urlToParse (p_url ps)) of
        Inl msg \<Rightarrow> Inl (Error (js ''Invalid URL: '' @ msg))
      | Inr pathname \<Rightarrow>
          (let segments = filter (\<lambda>s. s \<noteq> []) (split_js 0x2F pathname) in
           if length segments < 2 then Inl (Error (js ''Invalid GitHub repository URL format''))
           else
             (let pathSegments = drop 2 segments;
                  (pathBranch, pathTargetDirs, pathTargetFile) = pathInfo pathSegments;
                  queryDirs = queryDirsOf (p_dir ps);
                  queryExts = queryExtsOf (p_ext ps);
                  baseDir = (case pathTargetDirs of [] \<Rightarrow> [] | d # _ \<Rightarrow> d)
              in Inr \<lparr> r_owner = segments ! 0,
                       r_repo = segments ! 1,
                       r_branch = orElse (p_branch ps) (orElse pathBranch (js ''main'')),
                       r_finalTargetDirs =
                         (case queryDirs of
                            Some (q # qs) \<Rightarrow> map (normalizeDir baseDir) (q # qs)
                          | _ \<Rightarrow> (if pathTargetDirs \<noteq> [] then pathTargetDirs else [])),
                       r_targetExts = (case queryExts of None \<Rightarrow> [] | Some es \<Rightarrow> es),
                       r_targetFile =
                         (if truthy (p_file ps) then
                            (let queryFile = orElse (p_file ps) [];
                                 normalized = (if startsWith queryFile (js ''/'')
                                               then drop 1 queryFile else queryFile)
                             in if baseDir \<noteq> [] \<and> \<not> startsWith normalized baseDir
                                then Some (baseDir @ normalized)
                                else Some normalized)
                          else pathTargetFile),
                       r_isTreeMode = (p_mode ps = Some (js ''tree'')) \<rparr>)))"


section \<open>Fetching the archive, with the fallback branches\<close>

record request =
  req_url :: jsstring
  req_headers :: "(jsstring \<times> jsstring) list"

text \<open>
  One member of the loaded archive, as \<open>Object.values(jszip.files)\<close> yields them: its
  name, its directory flag and the string that \<open>async("string")\<close> resolves to.
\<close>

record zipObject =
  name :: jsstring
  dir :: bool
  asyncString :: jsstring

text \<open>
  A response: its status line and, for the body, the members of the archive that
  \<open>JSZip.loadAsync\<close> reads from it (the archive reader is outside the repository).
\<close>

record response =
  status :: nat
  statusText :: jsstring
  zipFiles :: "zipObject list"

definition ok :: "response \<Rightarrow> bool" where
  "ok r = (200 \<le> status r \<and> status r \<le> 299)"

definition zipRequest :: "jsstring \<Rightarrow> jsstring \<Rightarrow> jsstring \<Rightarrow> jsstring option \<Rightarrow> request" where
  "zipRequest owner repo branch token =
     \<lparr> req_url = js ''https://codeload.github.com/'' @ owner @ js ''/'' @ repo
                   @ js ''/zip/'' @ branch,
       req_headers = (js ''User-Agent'', js ''Pera1-Bot'')
                     # (if truthy token
                        then [(js ''Authorization'', js ''Bearer '' @ orElse token [])]
                        else []) \<rparr>"

text \<open>
  The network is a function from the request to its response. Within one call no request
  is sent twice and the order of the requests is fixed by the requested branch, so nothing
  is lost by this. Every function below returns the requests it has sent, in order.
\<close>

definition fetchZip :: "(request \<Rightarrow> response) \<Rightarrow> jsstring \<Rightarrow> jsstring \<Rightarrow> jsstring \<Rightarrow> jsstring option
    \<Rightarrow> response \<times> request list" where
  "fetchZip net owner repo branch token =
     (net (zipRequest owner repo branch token), [zipRequest owner repo branch token])"

definition defaultBranches :: "jsstring list" where
  "defaultBranches = [js ''main'', js ''master'']"

text \<open>
  The loop \<open>for (const defaultBranch of defaultBranches)\<close> with its \<open>continue\<close> and
  \<open>break\<close>; \<open>None\<close> is \<open>foundBranch\<close> still false at the end.
\<close>

fun fallbackLoop :: "(request \<Rightarrow> response) \<Rightarrow> jsstring \<Rightarrow> jsstring \<Rightarrow> jsstring option \<Rightarrow> jsstring
    \<Rightarrow> jsstring list \<Rightarrow> (jsstring \<times> response) option \<times> request list" where
  "fallbackLoop net owner repo token branch [] = (None, [])"
| "fallbackLoop net owner repo token branch (defaultBranch # rest) =
     (if branch = defaultBranch then fallbackLoop net owner repo token branch rest
      else
        (let (tempResp, sent) = fetchZip net owner repo defaultBranch token in
         if ok tempResp then (Some (defaultBranch, tempResp), sent)
         else (let (found, sent') = fallbackLoop net owner repo token branch rest
               in (found, sent @ sent'))))"

definition fetchArchive :: "(request \<Rightarrow> response) \<Rightarrow> jsstring \<Rightarrow> jsstring \<Rightarrow> jsstring \<Rightarrow> jsstring option
    \<Rightarrow> (error + jsstring \<times> response) \<times> request list" where
  "fetchArchive net owner repo branch token =
     (let (zipResp, sent) = fetchZip net owner repo branch token in
      if \<not> ok zipResp then
        (case fallbackLoop net owner repo token branch defaultBranches of
           (Some (b, resp), sent') \<Rightarrow> (Inr (b, resp), sent @ sent')
         | (None, sent') \<Rightarrow>
             (Inl (GitHubFetchError (status zipResp) (statusText zipResp)), sent @ sent'))
      else (Inr (branch, zipResp), sent))"


section \<open>Scanning the archive\<close>

text \<open>The values of the \<open>fileTree\<close> map; a placeholder has no \<open>isTruncated\<close> field.\<close>

record fileInfo =
  f_size :: nat
  f_content :: jsstring
  f_isTruncated :: "bool option"

definition placeholder :: fileInfo where
  "placeholder = \<lparr> f_size = 0, f_content = [], f_isTruncated = None \<rparr>"

text \<open>
  A JavaScript \<open>Map\<close> keeps its keys in insertion order, and \<open>set\<close> on a key that is
  present replaces the value where it stands.
\<close>

fun map_set :: "'k \<Rightarrow> 'v \<Rightarrow> ('k \<times> 'v) list \<Rightarrow> ('k \<times> 'v) list" where
  "map_set k v [] = [(k, v)]"
| "map_set k v ((k', v') # m) = (if k' = k then (k, v) # m else (k', v') # map_set k v m)"

definition map_get :: "('k \<times> 'v) list \<Rightarrow> 'k \<Rightarrow> 'v option" where
  "map_get m k = map_of m k"

text \<open>
  The variables that the scanning loop updates, and the names of the members whose content
  it has read through \<open>async("string")\<close>.
\<close>

record scanState =
  fileTree :: "(jsstring \<times> fileInfo) list"
  originalTotalSize :: nat
  displayTotalSize :: nat
  contentReads :: "jsstring list"

definition initialScan :: scanState where
  "initialScan = \<lparr> fileTree = [], originalTotalSize = 0, displayTotalSize = 0, contentReads = [] \<rparr>"

definition truncationMarker :: "nat \<Rightarrow> jsstring" where
  "truncationMarker sz =
     [0x0A, 0x0A] @ js ''This file is too large, truncated at 30KB. There is ''
     @ kbToFixed2 (sz - MAX_DISPLAY_FILE_SIZE) @ js ''KB remaining.''"

text \<open>Lines 190 to 209: the entry stored for a file that was not skipped, and its display size.\<close>

definition storedEntry :: "jsstring \<Rightarrow> fileInfo \<times> nat" where
  "storedEntry content =
     (let sz = utf8Length content in
      if MAX_DISPLAY_FILE_SIZE < sz
      then (\<lparr> f_size = sz,
               f_content = take MAX_DISPLAY_FILE_SIZE content @ truncationMarker sz,
               f_isTruncated = Some True \<rparr>, MAX_DISPLAY_FILE_SIZE)
      else (\<lparr> f_size = sz, f_content = content, f_isTruncated = Some False \<rparr>, sz))"

text \<open>Lines 172 to 176: the selection of a member by its relative path.\<close>

definition selected :: "jsstring option \<Rightarrow> jsstring list \<Rightarrow> jsstring list \<Rightarrow> jsstring \<Rightarrow> bool" where
  "selected targetFile finalTargetDirs targetExts fileRelative =
     (if truthy targetFile then Some fileRelative = targetFile
      else shouldIncludeFile fileRelative finalTargetDirs targetExts)"

text \<open>The body of the loop over \<open>Object.values(jszip.files)\<close>, lines 165 to 211.\<close>

definition scanStep :: "jsstring \<Rightarrow> jsstring option \<Rightarrow> jsstring list \<Rightarrow> jsstring list \<Rightarrow> bool \<Rightarrow> bool
    \<Rightarrow> scanState \<Rightarrow> zipObject \<Rightarrow> scanState" where
  "scanStep rootPrefix targetFile finalTargetDirs targetExts isTreeMode hasTsConfig st fileObj =
     (if dir fileObj then st
      else if \<not> startsWith (name fileObj) rootPrefix then st
      else
        (let fileRelative = drop (length rootPrefix) (name fileObj) in
         if \<not> selected targetFile finalTargetDirs targetExts fileRelative then st
         else if isTreeMode \<and> \<not> isReadme fileRelative then
           st \<lparr> fileTree := map_set fileRelative placeholder (fileTree st) \<rparr>
         else
           (let content = asyncString fileObj;
                sz = utf8Length content;
                st1 = st \<lparr> contentReads := contentReads st @ [name fileObj] \<rparr>
            in if shouldSkipFile fileRelative sz content hasTsConfig then st1
               else
                 (let (entry, displaySize) = storedEntry content
                  in st1 \<lparr> fileTree := map_set fileRelative entry (fileTree st1),
                           originalTotalSize := originalTotalSize st1 + sz,
                           displayTotalSize := displayTotalSize st1 + displaySize \<rparr>))))"

definition hasTsConfigIn :: "jsstring \<Rightarrow> zipObject list \<Rightarrow> bool" where
  "hasTsConfigIn rootPrefix files =
     list_ex (\<lambda>n. startsWith n rootPrefix \<and> endsWith n (js ''tsconfig.json'')) (map name files)"

definition rootPrefixOf :: "jsstring \<Rightarrow> jsstring \<Rightarrow> jsstring" where
  "rootPrefixOf repo branch = repo @ js ''-'' @ branch @ js ''/''"

definition scanArchive :: "jsstring \<Rightarrow> jsstring option \<Rightarrow> jsstring list \<Rightarrow> jsstring list \<Rightarrow> bool
    \<Rightarrow> zipObject list \<Rightarrow> scanState" where
  "scanArchive rootPrefix targetFile finalTargetDirs targetExts isTreeMode files =
     foldl (scanStep rootPrefix targetFile finalTargetDirs targetExts isTreeMode
              (hasTsConfigIn rootPrefix files))
       initialScan files"


section \<open>Rendering\<close>

definition nl :: jsstring where "nl = [0x0A]"

text \<open>
  The pictographs of the output as their surrogate pairs: U+1F4C4, U+1F4C2, U+1F4C1 and
  U+1F4DD; the arrow is U+2192.
\<close>

definition pageIcon :: jsstring where "pageIcon = [0xD83D, 0xDCC4]"
definition openFolderIcon :: jsstring where "openFolderIcon = [0xD83D, 0xDCC2]"
definition folderIcon :: jsstring where "folderIcon = [0xD83D, 0xDCC1]"
definition memoIcon :: jsstring where "memoIcon = [0xD83D, 0xDCDD]"
definition arrow :: jsstring where "arrow = [0x2192]"

text \<open>\<open>dirs.add\<close> on a \<open>Set\<close> kept in insertion order.\<close>

definition set_add :: "'a \<Rightarrow> 'a list \<Rightarrow> 'a list" where
  "set_add x xs = (if x \<in> set xs then xs else xs @ [x])"

definition addPathPrefixes :: "jsstring list \<Rightarrow> jsstring \<Rightarrow> jsstring list" where
  "addPathPrefixes dirs path =
     (let parts = split_js 0x2F path
      in foldl (\<lambda>ds i. set_add (join_js (js ''/'') (take i parts)) ds) dirs [1..<length parts + 1])"

definition treeLine :: "(jsstring \<times> fileInfo) list \<Rightarrow> bool \<Rightarrow> jsstring list \<Rightarrow> jsstring \<Rightarrow> jsstring" where
  "treeLine tree showSize dirs d =
     (let depth = length (split_js 0x2F d) - 1;
          indent = repeat_js (js ''  '') depth;
          nm = orElse (pop (split_js 0x2F d)) [];
          isFile = (\<not> list_ex (\<lambda>x. startsWith x (d @ js ''/'')) dirs)
      in if showSize \<and> isFile then
           (case map_get tree d of
              Some fileInfo \<Rightarrow>
                (let sizeKB = kbToFixed2 (f_size fileInfo) in
                 if f_isTruncated fileInfo = Some True
                 then indent @ pageIcon @ js '' '' @ nm @ js '' ('' @ sizeKB @ js '' KB'' @ arrow
                      @ js ''30KB truncated)'' @ nl
                 else indent @ pageIcon @ js '' '' @ nm @ js '' ('' @ sizeKB @ js '' KB)'' @ nl)
            | None \<Rightarrow> indent @ pageIcon @ js '' '' @ nm @ js '' (0.00 KB)'' @ nl)
         else indent @ (if isFile then pageIcon else openFolderIcon) @ js '' '' @ nm @ nl)"

definition createTreeDisplay :: "(jsstring \<times> fileInfo) list \<Rightarrow> bool \<Rightarrow> jsstring" where
  "createTreeDisplay tree showSize =
     (let dirs = foldl addPathPrefixes [] (map fst tree);
          sortedDirs = sort dirs
      in concat (map (treeLine tree showSize dirs) sortedDirs))"

definition renderTree :: "(jsstring \<times> fileInfo) list \<Rightarrow> jsstring" where
  "renderTree tree =
     (let readmeFiles = filter (\<lambda>(path, info). isReadme path \<and> f_content info \<noteq> []) tree
      in js ''# Directory Structure'' @ nl @ nl @ createTreeDisplay tree False
         @ (if readmeFiles \<noteq> []
            then nl @ js ''# README Files'' @ nl @ nl
                 @ concat (map (\<lambda>(path, info). js ''## '' @ path @ nl @ nl @ f_content info @ nl @ nl)
                             readmeFiles)
            else []))"

definition renderFull :: "scanState \<Rightarrow> jsstring" where
  "renderFull st =
     js ''# '' @ folderIcon @ js '' File Tree'' @ nl @ nl
     @ createTreeDisplay (fileTree st) True
     @ nl @ js ''# '' @ memoIcon @ js '' Files (Total: '' @ kbToFixed2 (originalTotalSize st)
     @ js '' KB'' @ arrow @ kbToFixed2 (displayTotalSize st) @ js '' KB)'' @ nl @ nl
     @ concat (map (\<lambda>(path, info). [0x60, 0x60, 0x60] @ path @ nl @ f_content info @ nl
                                    @ [0x60, 0x60, 0x60] @ nl @ nl)
                 (fileTree st))"

text \<open>Lines 213 to 249: what is returned once the archive has been scanned.\<close>

definition renderResult :: "jsstring option \<Rightarrow> bool \<Rightarrow> scanState \<Rightarrow> error + jsstring" where
  "renderResult targetFile isTreeMode st =
     (if truthy targetFile then
        (case map_get (fileTree st) (orElse targetFile []) of
           None \<Rightarrow> Inl (Error (js ''File not found: '' @ orElse targetFile []))
         | Some fileEntry \<Rightarrow> Inr (f_content fileEntry))
      else if isTreeMode then Inr (renderTree (fileTree st))
      else Inr (renderFull st))"

text \<open>Lines 152 to 249: everything after the archive has been fetched.\<close>

definition processArchive :: "resolved \<Rightarrow> jsstring \<Rightarrow> zipObject list \<Rightarrow> error + jsstring" where
  "processArchive r branch files =
     renderResult (r_targetFile r) (r_isTreeMode r)
       (scanArchive (rootPrefixOf (r_repo r) branch) (r_targetFile r) (r_finalTargetDirs r)
          (r_targetExts r) (r_isTreeMode r) files)"


section \<open>The whole function, and the status given to its errors\<close>

definition processGitHubRepository :: "(jsstring \<Rightarrow> jsstring + jsstring) \<Rightarrow> (request \<Rightarrow> response)
    \<Rightarrow> params \<Rightarrow> jsstring option \<Rightarrow> (error + jsstring) \<times> request list" where
  "processGitHubRepository parseURL net ps githubAccessToken =
     (case resolveReference parseURL ps of
        Inl e \<Rightarrow> (Inl e, [])
      | Inr r \<Rightarrow>
          (case fetchArchive net (r_owner r) (r_repo r) (r_branch r) githubAccessToken of
             (Inl e, sent) \<Rightarrow> (Inl e, sent)
           | (Inr (branch, zipResp), sent) \<Rightarrow> (processArchive r branch (zipFiles zipResp), sent)))"

text \<open>\<open>mapGitHubErrorToStatus\<close> of app.ts.\<close>

definition mapGitHubErrorToStatus :: "error \<Rightarrow> nat" where
  "mapGitHubErrorToStatus e =
     (case e of
        GitHubFetchError st txt \<Rightarrow>
          (if st = 401 \<or> st = 403 then 403 else if st = 404 then 404 else 500)
      | Error m \<Rightarrow>
          (let normalized = toLowerCase m in
           if includes_js normalized (js ''invalid url'')
              \<or> includes_js normalized (js ''invalid github repository url format'')
              \<or> includes_js normalized (js ''arguments are required'')
              \<or> includes_js normalized (js ''url parameter is required'')
              \<or> includes_js normalized (js ''url must be a non-empty string'')
           then 400
           else if includes_js normalized (js ''file not found'') then 404
           else 500))"


section \<open>What one step of the scan stores\<close>

text \<open>
  The branches of \<open>scanStep\<close> read as a function of the member alone: the key and value
  that the step puts into \<open>fileTree\<close>, if any. It is related to \<open>scanStep\<close> by the lemma
  \<open>fileTree_scanStep\<close> below and serves to state what the finished scan holds.
\<close>

definition stepWrite :: "jsstring \<Rightarrow> jsstring option \<Rightarrow> jsstring list \<Rightarrow> jsstring list \<Rightarrow> bool \<Rightarrow> bool
    \<Rightarrow> zipObject \<Rightarrow> (jsstring \<times> fileInfo) option" where
  "stepWrite rootPrefix targetFile finalTargetDirs targetExts isTreeMode hasTsConfig fileObj =
     (let fileRelative = drop (length rootPrefix) (name fileObj) in
      if dir fileObj then None
      else if \<not> startsWith (name fileObj) rootPrefix then None
      else if \<not> selected targetFile finalTargetDirs targetExts fileRelative then None
      else if isTreeMode \<and> \<not> isReadme fileRelative then Some (fileRelative, placeholder)
      else if shouldSkipFile fileRelative (utf8Length (asyncString fileObj)) (asyncString fileObj)
                hasTsConfig then None
      else Some (fileRelative, fst (storedEntry (asyncString fileObj))))"

text \<open>Likewise, whether the step reads the content of the member.\<close>

definition stepReads :: "jsstring \<Rightarrow> jsstring option \<Rightarrow> jsstring list \<Rightarrow> jsstring list \<Rightarrow> bool
    \<Rightarrow> zipObject \<Rightarrow> bool" where
  "stepReads rootPrefix targetFile finalTargetDirs targetExts isTreeMode fileObj =
     (let fileRelative = drop (length rootPrefix) (name fileObj) in
      if dir fileObj then False
      else if \<not> startsWith (name fileObj) rootPrefix then False
      else if \<not> selected targetFile finalTargetDirs targetExts fileRelative then False
      else if isTreeMode \<and> \<not> isReadme fileRelative then False
      else True)"


section \<open>The words of the specification about the scheme of the url\<close>

text \<open>
  Following the specification, which puts \<open>https://\<close> in front of the url "if it has no
  scheme": a string has a scheme when it starts with a letter that is followed by letters,
  digits, \<open>+\<close>, \<open>-\<close> or \<open>.\<close> and then a colon. The source tests
  \<open>url.startsWith("http")\<close> instead, see \<open>urlToParse\<close>.
\<close>

definition isAsciiAlpha :: "codeunit \<Rightarrow> bool" where
  "isAsciiAlpha c = ((0x41 \<le> c \<and> c \<le> 0x5A) \<or> (0x61 \<le> c \<and> c \<le> 0x7A))"

definition isSchemeUnit :: "codeunit \<Rightarrow> bool" where
  "isSchemeUnit c = (isAsciiAlpha c \<or> (0x30 \<le> c \<and> c \<le> 0x39) \<or> c \<in> set [0x2B, 0x2D, 0x2E])"

definition spec_hasScheme :: "jsstring \<Rightarrow> bool" where
  "spec_hasScheme u =
     (case u of
        [] \<Rightarrow> False
      | c # cs \<Rightarrow> isAsciiAlpha c
                  \<and> (case dropWhile isSchemeUnit cs of [] \<Rightarrow> False | d # _ \<Rightarrow> d = 0x3A))"

text \<open>
  The answers of the platform's parser on the two strings of the example
  \<open>httpbin.org/a/b\<close>: without a scheme and without a base URL the string does not parse;
  with \<open>https://\<close> in front it parses, and its \<open>pathname\<close> is \<open>/a/b\<close>. No other
  string is used with this function.
\<close>

definition exampleParser :: "jsstring \<Rightarrow> jsstring + jsstring" where
  "exampleParser u =
     (if u = js ''https://httpbin.org/a/b'' then Inr (js ''/a/b'') else Inl (js ''Invalid URL''))"




section \<open>The binary-content heuristic\<close>

lemma countNonPrintable_filter:
  "i \<le> n \<Longrightarrow> n \<le> length c \<Longrightarrow>
   countNonPrintable c n i k = k + length (filter nonPrintableCode (take (n - i) (drop i c)))"
proof (induction c n i k rule: countNonPrintable.induct)
  case (1 content sampleSize i nonPrintable)
  show ?case
  proof (cases "i < sampleSize")
    case True
    then have il: "i < length content" using "1.prems" by simp
    have step: "take (sampleSize - i) (drop i content)
          = content ! i # take (sampleSize - (i + 1)) (drop (i + 1) content)"
      using True il by (metis Cons_nth_drop_Suc Suc_diff_Suc Suc_eq_plus1 take_Suc_Cons)
    have IH: "countNonPrintable content sampleSize (i + 1)
             (if nonPrintableCode (content ! i) then nonPrintable + 1 else nonPrintable)
          = (if nonPrintableCode (content ! i) then nonPrintable + 1 else nonPrintable)
            + length (filter nonPrintableCode (take (sampleSize - (i + 1)) (drop (i + 1) content)))"
    proof -
      have a: "i + 1 \<le> sampleSize" using True by simp
      show ?thesis by (rule "1.IH" [OF True a "1.prems"(2)])
    qed
    have "countNonPrintable content sampleSize i nonPrintable
          = countNonPrintable content sampleSize (i + 1)
             (if nonPrintableCode (content ! i) then nonPrintable + 1 else nonPrintable)"
      using True by (subst countNonPrintable.simps) (simp only: if_True)
    also note IH
    also have "(if nonPrintableCode (content ! i) then nonPrintable + 1 else nonPrintable)
            + length (filter nonPrintableCode (take (sampleSize - (i + 1)) (drop (i + 1) content)))
          = nonPrintable + length (filter nonPrintableCode (take (sampleSize - i) (drop i content)))"
      by (simp add: step)
    finally show ?thesis .
  next
    case False
    then show ?thesis using "1.prems" by (subst countNonPrintable.simps) simp
  qed
qed

lemma isBinaryContent_count:
  "isBinaryContent content
     = (min (length content) 1000 < 20 * length (filter nonPrintableCode (take 1000 content)))"
proof -
  have "take (min (length content) 1000) content = take 1000 content"
    by (simp add: min_def)
  then show ?thesis
    by (simp add: isBinaryContent_def Let_def countNonPrintable_filter)
qed

lemma nonPrintableCode_iff:
  "nonPrintableCode c = (c = 0 \<or> (c < 32 \<and> c \<noteq> 9 \<and> c \<noteq> 10 \<and> c \<noteq> 13))"
  by (auto simp add: nonPrintableCode_def)

text \<open>
  C8: \<open>isBinaryContent\<close> answers true exactly when, among the first
  \<open>min(length, 1000)\<close> code units of the content, the fraction of those whose code is 0, or
  is below 32 and is none of 9, 10 and 13, is strictly greater than 5 percent. For the empty
  string the sample is empty and the answer is false.
\<close>

theorem isBinaryContent_fraction:
  "isBinaryContent content \<longleftrightarrow>
     (let sample = take (min (length content) 1000) content
      in 5 / 100 < real (length (filter (\<lambda>c. c = 0 \<or> (c < 32 \<and> c \<noteq> 9 \<and> c \<noteq> 10 \<and> c \<noteq> 13)) sample))
                   / real (length sample))"
proof -
  let ?P = "\<lambda>c::codeunit. c = 0 \<or> (c < 32 \<and> c \<noteq> 9 \<and> c \<noteq> 10 \<and> c \<noteq> 13)"
  have P: "nonPrintableCode = ?P" by (rule ext) (rule nonPrintableCode_iff)
  have tk: "take (min (length content) 1000) content = take 1000 content"
    by (simp add: min_def)
  let ?k = "length (filter ?P (take 1000 content))"
  let ?n = "min (length content) 1000"
  have len: "length (take 1000 content) = ?n" by simp
  have "(5 / 100 < real ?k / real ?n) = (?n < 20 * ?k)"
  proof (cases "?n = 0")
    case True
    then have "content = []" by (auto simp: min_def split: if_splits)
    then show ?thesis by simp
  next
    case False
    then have pos: "0 < real ?n" by simp
    have "(5 / 100 < real ?k / real ?n) = (5 / 100 * real ?n < real ?k)"
      using pos by (simp add: pos_less_divide_eq)
    also have "\<dots> = (real ?n < real (20 * ?k))" by (simp add: mult.commute)
    also have "\<dots> = (?n < 20 * ?k)" by (simp only: of_nat_less_iff)
    finally show ?thesis .
  qed
  then show ?thesis
    unfolding isBinaryContent_count P Let_def tk len by simp
qed

theorem isBinaryContent_fraction_witness:
  "isBinaryContent [0, 0x41, 0x42] \<and> \<not> isBinaryContent (js ''plain text'')"
  using isBinaryContent_fraction [of "[0, 0x41, 0x42]"] isBinaryContent_fraction [of "js ''plain text''"]
  by (simp add: js_def Let_def)


section \<open>What the finished scan holds\<close>

lemma startsWith_append: "startsWith s p \<Longrightarrow> s = p @ drop (length p) s"
  by (metis append_take_drop_id startsWith_def)

lemma startsWith_appendI: "startsWith (p @ t) p"
  by (simp add: startsWith_def)

lemma map_get_map_set: "map_get (map_set k v m) k' = (if k' = k then Some v else map_get m k')"
  by (induction m) (auto simp: map_get_def)

lemma fileTree_scanStep:
  "fileTree (scanStep rp tf ds es tree ts st f)
     = (case stepWrite rp tf ds es tree ts f of
          None \<Rightarrow> fileTree st
        | Some (p, i) \<Rightarrow> map_set p i (fileTree st))"
  by (simp add: scanStep_def stepWrite_def placeholder_def Let_def split: prod.splits)

lemma stepWrite_name:
  "stepWrite rp tf ds es tree ts f = Some (p, i) \<Longrightarrow> name f = rp @ p \<and> \<not> dir f"
  by (auto simp: stepWrite_def Let_def split: if_splits dest: startsWith_append)

lemma map_get_scanStep:
  "map_get (fileTree (scanStep rp tf ds es tree ts st f)) p
     = (case stepWrite rp tf ds es tree ts f of
          None \<Rightarrow> map_get (fileTree st) p
        | Some (q, i) \<Rightarrow> if p = q then Some i else map_get (fileTree st) p)"
  by (simp add: fileTree_scanStep map_get_map_set split: option.splits)

lemma map_get_scan_origin:
  "map_get (fileTree (foldl (scanStep rp tf ds es tree ts) st files)) p = Some i \<Longrightarrow>
   map_get (fileTree st) p = Some i \<or> (\<exists>f \<in> set files. stepWrite rp tf ds es tree ts f = Some (p, i))"
proof (induction files arbitrary: i rule: rev_induct)
  case Nil
  then show ?case by simp
next
  case (snoc f files)
  then show ?case
    by (auto simp: map_get_scanStep split: option.splits if_splits)
qed

lemma map_get_scan_unwritten:
  "\<forall>f \<in> set files. \<forall>i. stepWrite rp tf ds es tree ts f \<noteq> Some (p, i) \<Longrightarrow>
   map_get (fileTree (foldl (scanStep rp tf ds es tree ts) st files)) p = map_get (fileTree st) p"
proof (induction files rule: rev_induct)
  case Nil
  then show ?case by simp
next
  case (snoc f files)
  then show ?case
    by (auto simp: map_get_scanStep split: option.splits)
qed

lemma map_get_scan_written:
  assumes d: "distinct (map name files)"
    and f: "f \<in> set files"
    and w: "stepWrite rp tf ds es tree ts f = Some (p, i)"
  shows "map_get (fileTree (foldl (scanStep rp tf ds es tree ts) st files)) p = Some i"
proof -
  from f obtain xs ys where files: "files = xs @ f # ys"
    by (auto simp: in_set_conv_decomp)
  have nf: "name f = rp @ p" using stepWrite_name [OF w] by simp
  have "\<forall>g \<in> set ys. \<forall>j. stepWrite rp tf ds es tree ts g \<noteq> Some (p, j)"
  proof (intro ballI allI notI)
    fix g j assume g: "g \<in> set ys" and "stepWrite rp tf ds es tree ts g = Some (p, j)"
    then have "name g = name f" using stepWrite_name nf by metis
    then have "name f \<in> name ` set ys" using g by (metis imageI)
    with d show False unfolding files by simp
  qed
  then have "map_get (fileTree (foldl (scanStep rp tf ds es tree ts)
                 (scanStep rp tf ds es tree ts (foldl (scanStep rp tf ds es tree ts) st xs) f) ys)) p
             = map_get (fileTree (scanStep rp tf ds es tree ts
                 (foldl (scanStep rp tf ds es tree ts) st xs) f)) p"
    by (rule map_get_scan_unwritten)
  also have "\<dots> = Some i" by (simp add: map_get_scanStep w)
  finally show ?thesis by (simp add: files)
qed


section \<open>Stored content, truncation and sizes\<close>

lemma storedEntry_small:
  "utf8Length content \<le> MAX_DISPLAY_FILE_SIZE \<Longrightarrow>
   storedEntry content
     = (\<lparr> f_size = utf8Length content, f_content = content, f_isTruncated = Some False \<rparr>,
        utf8Length content)"
  by (simp add: storedEntry_def Let_def)

lemma stepWrite_stored:
  "\<not> dir f \<Longrightarrow> name f = rp @ p \<Longrightarrow> selected tf ds es p \<Longrightarrow> \<not> (tree \<and> \<not> isReadme p) \<Longrightarrow>
   \<not> shouldSkipFile p (utf8Length (asyncString f)) (asyncString f) ts \<Longrightarrow>
   stepWrite rp tf ds es tree ts f = Some (p, fst (storedEntry (asyncString f)))"
  by (auto simp: stepWrite_def Let_def startsWith_appendI)

lemma shouldSkipFile_iff:
  "shouldSkipFile filename sz content hasTsConfig
     = (matchesLock filename
        \<or> js ''.'' @ orEmpty (pop (split_js 0x2E (toLowerCase filename))) \<in> set imageExtensions
        \<or> js ''.'' @ orEmpty (pop (split_js 0x2E (toLowerCase filename))) \<in> set binaryExtensions
        \<or> (hasTsConfig \<and> (endsWith filename (js ''.js'') \<or> endsWith filename (js ''.mjs'')))
        \<or> MAX_FILE_SIZE < sz
        \<or> (content \<noteq> [] \<and> isBinaryContent content))"
  by (simp add: shouldSkipFile_def Let_def)

lemma kbToFixed2_10240: "kbToFixed2 10240 = js ''10.00''"
  by (simp add: kbToFixed2_def decimal.simps js_def)

text \<open>
  C5: a file that survives the filtering (it is a file under the root prefix, it is
  selected, its content is read and \<open>shouldSkipFile\<close> lets it pass) and whose UTF-8 size is
  at most 30 KiB is stored with \<open>isTruncated\<close> false and with exactly its original
  content. The names of the members of an archive are the keys of an object, hence distinct.
\<close>

theorem small_file_stored_verbatim:
  assumes "distinct (map name files)"
    and "fileObj \<in> set files"
    and "\<not> dir fileObj"
    and "name fileObj = rootPrefix @ path"
    and "selected targetFile finalTargetDirs targetExts path"
    and "\<not> (isTreeMode \<and> \<not> isReadme path)"
    and "\<not> shouldSkipFile path (utf8Length (asyncString fileObj)) (asyncString fileObj)
             (hasTsConfigIn rootPrefix files)"
    and "utf8Length (asyncString fileObj) \<le> 30 * 1024"
  shows "map_get (fileTree (scanArchive rootPrefix targetFile finalTargetDirs targetExts isTreeMode files))
           path
         = Some \<lparr> f_size = utf8Length (asyncString fileObj),
                  f_content = asyncString fileObj,
                  f_isTruncated = Some False \<rparr>"
proof -
  have "stepWrite rootPrefix targetFile finalTargetDirs targetExts isTreeMode
          (hasTsConfigIn rootPrefix files) fileObj
        = Some (path, fst (storedEntry (asyncString fileObj)))"
    using assms(3-7) by (rule stepWrite_stored)
  then have "map_get (fileTree (scanArchive rootPrefix targetFile finalTargetDirs targetExts
                isTreeMode files)) path = Some (fst (storedEntry (asyncString fileObj)))"
    unfolding scanArchive_def using assms(1,2) by (rule map_get_scan_written [rotated 2])
  then show ?thesis
    using assms(8) by (simp add: storedEntry_small MAX_DISPLAY_FILE_SIZE_def)
qed


theorem small_file_stored_verbatim_witness:
  "map_get (fileTree (scanArchive (js ''r-main/'') None [] [] False
        [\<lparr> name = js ''r-main/a.txt'', dir = False, asyncString = js ''hi'' \<rparr>])) (js ''a.txt'')
   = Some \<lparr> f_size = 2, f_content = js ''hi'', f_isTruncated = Some False \<rparr>"
proof -
  let ?f = "\<lparr> name = js ''r-main/a.txt'', dir = False, asyncString = js ''hi'' \<rparr>"
  have 1: "distinct (map name [?f])" by simp
  have 2: "?f \<in> set [?f]" by simp
  have 3: "\<not> dir ?f" by simp
  have 4: "name ?f = js ''r-main/'' @ js ''a.txt''" by (simp add: js_def)
  have 5: "selected None [] [] (js ''a.txt'')" by code_simp
  have 6: "\<not> (False \<and> \<not> isReadme (js ''a.txt''))" by simp
  have ne: "\<not> endsWith (js ''r-main/a.txt'') (js ''tsconfig.json'')" by code_simp
  have ts: "hasTsConfigIn (js ''r-main/'') [?f] = False"
    using ne by (simp add: hasTsConfigIn_def)
  have lock: "\<not> matchesLock (js ''a.txt'')" by code_simp
  have ext: "orEmpty (pop (split_js 0x2E (toLowerCase (js ''a.txt'')))) = js ''txt''"
    by code_simp
  have e1: "js ''.'' @ js ''txt'' \<notin> set imageExtensions" by code_simp
  have e2: "js ''.'' @ js ''txt'' \<notin> set binaryExtensions" by code_simp
  have nb: "\<not> isBinaryContent (js ''hi'')"
    by (simp add: isBinaryContent_count js_def nonPrintableCode_def)
  have 9: "utf8Length (js ''hi'') = 2" by code_simp
  have sk: "\<not> shouldSkipFile (js ''a.txt'') (utf8Length (js ''hi'')) (js ''hi'') False"
    using lock e1 e2 nb by (simp add: shouldSkipFile_iff ext 9 MAX_FILE_SIZE_def)
  have 7: "\<not> shouldSkipFile (js ''a.txt'') (utf8Length (asyncString ?f)) (asyncString ?f)
               (hasTsConfigIn (js ''r-main/'') [?f])"
    using sk by (simp add: ts)
  have 8: "utf8Length (asyncString ?f) \<le> 30 * 1024" by (simp add: 9)
  show ?thesis
    using small_file_stored_verbatim [OF 1 2 3 4 5 6 7 8] 9 by simp
qed

lemma utf8Length_Cons1: "c < 0x80 \<Longrightarrow> utf8Length (c # cs) = 1 + utf8Length cs"
  by (cases cs) simp_all

lemma utf8Length_Cons3:
  "0x800 \<le> c \<Longrightarrow> \<not> isHighSurrogate c \<Longrightarrow> utf8Length (c # cs) = 3 + utf8Length cs"
  by (cases cs) (auto simp: not_less [symmetric] dest: order.strict_trans [of _ "0x80" "0x800"])

lemma utf8Length_ascii: "\<forall>c \<in> set s. c < 0x80 \<Longrightarrow> utf8Length s = length s"
  by (induction s) (simp_all add: utf8Length_Cons1)

lemma utf8Length_replicate3:
  "0x800 \<le> c \<Longrightarrow> \<not> isHighSurrogate c \<Longrightarrow> utf8Length (replicate n c @ s) = 3 * n + utf8Length s"
  by (induction n) (simp_all add: utf8Length_Cons3)

lemma storedEntry_large:
  "MAX_DISPLAY_FILE_SIZE < utf8Length content \<Longrightarrow>
   storedEntry content
     = (\<lparr> f_size = utf8Length content,
          f_content = take MAX_DISPLAY_FILE_SIZE content @ truncationMarker (utf8Length content),
          f_isTruncated = Some True \<rparr>,
        MAX_DISPLAY_FILE_SIZE)"
  by (simp add: storedEntry_def Let_def)

lemma storedEntry_large_ascii:
  assumes "\<forall>c \<in> set content. c < 0x80" and "30 * 1024 < utf8Length content"
  shows "storedEntry content
           = (\<lparr> f_size = length content,
                f_content = take (30 * 1024) content
                  @ [0x0A, 0x0A] @ js ''This file is too large, truncated at 30KB. There is ''
                  @ kbToFixed2 (length content - 30 * 1024) @ js ''KB remaining.'',
                f_isTruncated = Some True \<rparr>,
              30 * 1024)
         \<and> utf8Length (take (30 * 1024) content) = 30 * 1024"
proof -
  have len: "utf8Length content = length content" using assms(1) by (rule utf8Length_ascii)
  have "\<forall>c \<in> set (take (30 * 1024) content). c < 0x80"
    using assms(1) by (meson in_set_takeD)
  then have "utf8Length (take (30 * 1024) content) = length (take (30 * 1024) content)"
    by (rule utf8Length_ascii)
  then show ?thesis
    using assms(2) len
    by (simp add: storedEntry_large MAX_DISPLAY_FILE_SIZE_def truncationMarker_def)
qed

lemma scanArchive_single:
  assumes "\<not> hasTsConfigIn rp [\<lparr> name = rp @ p, dir = False, asyncString = c \<rparr>]"
    and "selected tf ds es p"
    and "\<not> (tree \<and> \<not> isReadme p)"
    and "\<not> shouldSkipFile p (utf8Length c) c False"
  shows "scanArchive rp tf ds es tree [\<lparr> name = rp @ p, dir = False, asyncString = c \<rparr>]
         = \<lparr> fileTree = [(p, fst (storedEntry c))],
             originalTotalSize = utf8Length c,
             displayTotalSize = snd (storedEntry c),
             contentReads = [rp @ p] \<rparr>"
  using assms
  by (simp add: scanArchive_def scanStep_def initialScan_def startsWith_appendI Let_def
        split: prod.splits)

text \<open>
  C1: at a file of 40 KiB made of 13653 three-byte characters and one letter, which
  survives the filtering, the scan marks the file as truncated and counts 30 KiB for it,
  but \<open>substring(0, 30720)\<close> counts code units, not bytes: the stored content is the whole
  40 KiB of the file followed by the marker that announces 10.00KB remaining.
\<close>

theorem multibyte_file_not_cut:
  "(let content = replicate 13653 0x3042 @ js ''a'';
        st = scanArchive (js ''r-main/'') None [] [] False
               [\<lparr> name = js ''r-main/notes.txt'', dir = False, asyncString = content \<rparr>]
    in utf8Length content = 40 * 1024
       \<and> fileTree st
           = [(js ''notes.txt'',
               \<lparr> f_size = 40 * 1024,
                 f_content = content @ [0x0A, 0x0A]
                   @ js ''This file is too large, truncated at 30KB. There is 10.00KB remaining.'',
                 f_isTruncated = Some True \<rparr>)]
       \<and> displayTotalSize st = 30 * 1024
       \<and> utf8Length (take (30 * 1024) content) = 40 * 1024)"
proof -
  define c :: jsstring where "c = replicate 13653 0x3042 @ js ''a''"
  have hs: "\<not> isHighSurrogate 0x3042" by (simp add: isHighSurrogate_def)
  have ua: "utf8Length (js ''a'') = 1" by code_simp
  have len: "utf8Length c = 40960"
    unfolding c_def by (simp add: utf8Length_replicate3 hs ua)
  have la: "length (js ''a'') = 1" by (simp add: js_def)
  have lc: "length c = 13654" unfolding c_def by (simp add: la)
  have tk: "take (30 * 1024) c = c" using lc by simp
  have tk1000: "take 1000 c = replicate 1000 0x3042" unfolding c_def by simp
  have np: "\<not> nonPrintableCode 0x3042" by (simp add: nonPrintableCode_def)
  have nb: "\<not> isBinaryContent c"
    unfolding isBinaryContent_count tk1000 using np by simp
  have ext: "orEmpty (pop (split_js 0x2E (toLowerCase (js ''notes.txt'')))) = js ''txt''"
    by code_simp
  have lock: "\<not> matchesLock (js ''notes.txt'')" by code_simp
  have e1: "js ''.'' @ js ''txt'' \<notin> set imageExtensions" by code_simp
  have e2: "js ''.'' @ js ''txt'' \<notin> set binaryExtensions" by code_simp
  have skip: "\<not> shouldSkipFile (js ''notes.txt'') (utf8Length c) c False"
    using nb lock e1 e2 by (simp add: shouldSkipFile_def ext MAX_FILE_SIZE_def len)
  have sel: "selected None [] [] (js ''notes.txt'')" by code_simp
  have nm: "js ''r-main/notes.txt'' = js ''r-main/'' @ js ''notes.txt''" by (simp add: js_def)
  have "\<not> endsWith (js ''r-main/notes.txt'') (js ''tsconfig.json'')" by code_simp
  then have ts: "\<not> hasTsConfigIn (js ''r-main/'')
                    [\<lparr> name = js ''r-main/'' @ js ''notes.txt'', dir = False, asyncString = c \<rparr>]"
    by (simp add: hasTsConfigIn_def nm)
  have mk: "truncationMarker 40960
      = [0x0A, 0x0A] @ js ''This file is too large, truncated at 30KB. There is 10.00KB remaining.''"
    by (simp add: truncationMarker_def MAX_DISPLAY_FILE_SIZE_def kbToFixed2_10240) (simp add: js_def)
  have se: "storedEntry c = (\<lparr> f_size = 40960,
          f_content = c @ [0x0A, 0x0A]
            @ js ''This file is too large, truncated at 30KB. There is 10.00KB remaining.'',
          f_isTruncated = Some True \<rparr>, 30720)"
    using tk by (simp add: storedEntry_large len MAX_DISPLAY_FILE_SIZE_def mk)
  have tr: "\<not> (False \<and> \<not> isReadme (js ''notes.txt''))" by simp
  have sc: "scanArchive (js ''r-main/'') None [] [] False
              [\<lparr> name = js ''r-main/notes.txt'', dir = False, asyncString = c \<rparr>]
            = \<lparr> fileTree = [(js ''notes.txt'', fst (storedEntry c))],
                originalTotalSize = utf8Length c,
                displayTotalSize = snd (storedEntry c),
                contentReads = [js ''r-main/'' @ js ''notes.txt''] \<rparr>"
    unfolding nm by (rule scanArchive_single [OF ts sel tr skip])
  have "utf8Length c = 40 * 1024
       \<and> fileTree (scanArchive (js ''r-main/'') None [] [] False
               [\<lparr> name = js ''r-main/notes.txt'', dir = False, asyncString = c \<rparr>])
           = [(js ''notes.txt'',
               \<lparr> f_size = 40 * 1024,
                 f_content = c @ [0x0A, 0x0A]
                   @ js ''This file is too large, truncated at 30KB. There is 10.00KB remaining.'',
                 f_isTruncated = Some True \<rparr>)]
       \<and> displayTotalSize (scanArchive (js ''r-main/'') None [] [] False
               [\<lparr> name = js ''r-main/notes.txt'', dir = False, asyncString = c \<rparr>]) = 30 * 1024
       \<and> utf8Length (take (30 * 1024) c) = 40 * 1024"
    unfolding sc tk by (simp add: se len)
  then show ?thesis
    unfolding Let_def c_def .
qed


section \<open>The fallback branches\<close>

lemma fallbackLoop_find:
  "fallbackLoop net owner repo token branch ds =
     (let cands = filter (\<lambda>d. d \<noteq> branch) ds;
          failed = takeWhile (\<lambda>d. \<not> ok (net (zipRequest owner repo d token))) cands
      in case find (\<lambda>d. ok (net (zipRequest owner repo d token))) cands of
           Some d \<Rightarrow> (Some (d, net (zipRequest owner repo d token)),
                      map (\<lambda>b. zipRequest owner repo b token) (failed @ [d]))
         | None \<Rightarrow> (None, map (\<lambda>b. zipRequest owner repo b token) cands))"
proof (induction ds)
  case Nil
  show ?case by simp
next
  case (Cons d ds)
  show ?case
  proof (cases "branch = d")
    case True
    then show ?thesis using Cons by simp
  next
    case False
    then have ne: "d \<noteq> branch" by simp
    show ?thesis
    proof (cases "ok (net (zipRequest owner repo d token))")
      case True
      then show ?thesis using False ne by (simp add: fetchZip_def)
    next
      case nok: False
      then show ?thesis
        using False ne Cons by (simp add: fetchZip_def Let_def split: option.splits prod.splits)
    qed
  qed
qed

text \<open>
  C2: when the first request, for the requested branch, is not answered with a 2xx status,
  the fetcher asks for \<open>main\<close> and then \<open>master\<close>, leaving out the one equal to the
  requested branch, one request after the other, and stops at the first that succeeds: that
  branch and its response are the result, and the requests sent are the first one, the
  fallbacks that failed and the one that succeeded, nothing after it. When none succeeds the
  result is a \<open>GitHubFetchError\<close> with the status and status text of the first response.
\<close>

theorem fetchArchive_fallback:
  assumes "\<not> ok (net (zipRequest owner repo branch token))"
  shows "fetchArchive net owner repo branch token =
     (let cands = filter (\<lambda>d. d \<noteq> branch) [js ''main'', js ''master''];
          failed = takeWhile (\<lambda>d. \<not> ok (net (zipRequest owner repo d token))) cands
      in case find (\<lambda>d. ok (net (zipRequest owner repo d token))) cands of
           Some d \<Rightarrow> (Inr (d, net (zipRequest owner repo d token)),
                      map (\<lambda>b. zipRequest owner repo b token) (branch # failed @ [d]))
         | None \<Rightarrow> (Inl (GitHubFetchError (status (net (zipRequest owner repo branch token)))
                            (statusText (net (zipRequest owner repo branch token)))),
                    map (\<lambda>b. zipRequest owner repo b token) (branch # cands)))"
  using assms
  by (simp add: fetchArchive_def fetchZip_def fallbackLoop_find defaultBranches_def Let_def
        split: option.splits)


theorem fetchArchive_fallback_witness:
  "fetchArchive
     (\<lambda>q. \<lparr> status = (if req_url q = js ''https://codeload.github.com/o/r/zip/feature-x'' then 404 else 200),
             statusText = js ''-'', zipFiles = [] \<rparr>)
     (js ''o'') (js ''r'') (js ''feature-x'') None
   = (Inr (js ''main'', \<lparr> status = 200, statusText = js ''-'', zipFiles = [] \<rparr>),
      [zipRequest (js ''o'') (js ''r'') (js ''feature-x'') None,
       zipRequest (js ''o'') (js ''r'') (js ''main'') None])"
proof -
  let ?net = "\<lambda>q. \<lparr> status = (if req_url q = js ''https://codeload.github.com/o/r/zip/feature-x''
                                   then 404 else 200),
                      statusText = js ''-'', zipFiles = [] \<rparr>"
  have u1: "req_url (zipRequest (js ''o'') (js ''r'') (js ''feature-x'') None)
              = js ''https://codeload.github.com/o/r/zip/feature-x''"
    by (simp add: zipRequest_def js_def)
  have u2: "req_url (zipRequest (js ''o'') (js ''r'') (js ''main'') None)
              \<noteq> js ''https://codeload.github.com/o/r/zip/feature-x''"
    by (simp add: zipRequest_def js_def)
  have ne: "js ''main'' \<noteq> js ''feature-x''" "js ''master'' \<noteq> js ''feature-x''"
    by (simp_all add: js_def)
  have h: "\<not> ok (?net (zipRequest (js ''o'') (js ''r'') (js ''feature-x'') None))"
    by (simp add: ok_def u1)
  show ?thesis
    using fetchArchive_fallback [of ?net, OF h] ne
    by (simp add: ok_def u1 u2 Let_def)
qed

section \<open>Resolution of the reference\<close>






lemma includes_js_prefix: "startsWith s p \<Longrightarrow> includes_js s p"
  by (cases s) (auto simp: startsWith_def)

lemma toLowerCase_append: "toLowerCase (a @ b) = toLowerCase a @ toLowerCase b"
  by (simp add: toLowerCase_def)

lemma status_invalid_url: "mapGitHubErrorToStatus (Error (js ''Invalid URL: '' @ msg)) = 400"
proof -
  have l: "toLowerCase (js ''Invalid URL: '') = js ''invalid url: ''" by code_simp
  have "startsWith (js ''invalid url: '' @ toLowerCase msg) (js ''invalid url'')"
    by (simp add: startsWith_def js_def)
  then have "includes_js (toLowerCase (js ''Invalid URL: '' @ msg)) (js ''invalid url'')"
    by (simp add: toLowerCase_append l includes_js_prefix)
  then show ?thesis by (simp add: mapGitHubErrorToStatus_def)
qed

lemma status_invalid_format:
  "mapGitHubErrorToStatus (Error (js ''Invalid GitHub repository URL format'')) = 400"
proof -
  have l: "toLowerCase (js ''Invalid GitHub repository URL format'')
             = js ''invalid github repository url format''" by code_simp
  have "includes_js (js ''invalid github repository url format'')
          (js ''invalid github repository url format'')"
    by (rule includes_js_prefix) (simp add: startsWith_def)
  then show ?thesis by (simp add: mapGitHubErrorToStatus_def l)
qed

text \<open>
  C9, as amended: the resolution fails exactly when the platform does not parse the url
  (taken as it is when it starts with \<open>http\<close>, and with \<open>https://\<close> put in front
  otherwise), or when
  the path of the parsed URL has fewer than two non-empty segments. The error is then the
  \<open>Invalid URL\<close> or the \<open>Invalid GitHub repository URL format\<close> error, and both are given
  the status 400.
\<close>

theorem resolveReference_fails_iff:
  "(resolveReference parseURL ps = Inl e \<longleftrightarrow>
      (\<exists>msg. parseURL (urlToParse (p_url ps)) = Inl msg \<and> e = Error (js ''Invalid URL: '' @ msg))
      \<or> (\<exists>pathname. parseURL (urlToParse (p_url ps)) = Inr pathname
            \<and> length (filter (\<lambda>s. s \<noteq> []) (split_js 0x2F pathname)) < 2
            \<and> e = Error (js ''Invalid GitHub repository URL format'')))
   \<and> (resolveReference parseURL ps = Inl e \<longrightarrow> mapGitHubErrorToStatus e = 400)"
proof -
  have iff: "resolveReference parseURL ps = Inl e \<longleftrightarrow>
      (\<exists>msg. parseURL (urlToParse (p_url ps)) = Inl msg \<and> e = Error (js ''Invalid URL: '' @ msg))
      \<or> (\<exists>pathname. parseURL (urlToParse (p_url ps)) = Inr pathname
            \<and> length (filter (\<lambda>s. s \<noteq> []) (split_js 0x2F pathname)) < 2
            \<and> e = Error (js ''Invalid GitHub repository URL format''))"
    by (cases "parseURL (urlToParse (p_url ps))")
       (auto simp: resolveReference_def Let_def split: prod.splits)
  moreover have "resolveReference parseURL ps = Inl e \<longrightarrow> mapGitHubErrorToStatus e = 400"
    unfolding iff using status_invalid_url status_invalid_format by auto
  ultimately show ?thesis by blast
qed

theorem resolveReference_fails_iff_witness:
  "resolveReference (\<lambda>u. Inr (js ''/owner''))
      \<lparr> p_url = js ''github.com/owner'', p_dir = None, p_ext = None, p_branch = None,
        p_file = None, p_mode = None \<rparr>
     = Inl (Error (js ''Invalid GitHub repository URL format''))
   \<and> mapGitHubErrorToStatus (Error (js ''Invalid GitHub repository URL format'')) = 400"
proof -
  let ?parse = "\<lambda>u :: jsstring. Inr (js ''/owner'') :: jsstring + jsstring"
  let ?ps = "\<lparr> p_url = js ''github.com/owner'', p_dir = None, p_ext = None, p_branch = None,
              p_file = None, p_mode = None \<rparr>"
  have s: "filter (\<lambda>s. s \<noteq> []) (split_js 0x2F (js ''/owner'')) = [js ''owner'']" by code_simp
  show ?thesis
    using resolveReference_fails_iff
            [of ?parse ?ps "Error (js ''Invalid GitHub repository URL format'')"]
    by (simp add: s)
qed


section \<open>Exclusions, TREE mode and single-file targets\<close>

lemma map_get_scan_agreed:
  "\<exists>f \<in> set files. stepWrite rp tf ds es tree ts f = Some (p, i) \<Longrightarrow>
   \<forall>g \<in> set files. \<forall>j. stepWrite rp tf ds es tree ts g = Some (p, j) \<longrightarrow> j = i \<Longrightarrow>
   map_get (fileTree (foldl (scanStep rp tf ds es tree ts) st files)) p = Some i"
proof (induction files rule: rev_induct)
  case Nil
  then show ?case by simp
next
  case (snoc x files)
  show ?case
  proof (cases "\<exists>j. stepWrite rp tf ds es tree ts x = Some (p, j)")
    case True
    then have "stepWrite rp tf ds es tree ts x = Some (p, i)" using snoc.prems(2) by auto
    then show ?thesis by (simp add: map_get_scanStep)
  next
    case False
    then have ex: "\<exists>f \<in> set files. stepWrite rp tf ds es tree ts f = Some (p, i)"
      using snoc.prems(1) by auto
    have all: "\<forall>g \<in> set files. \<forall>j. stepWrite rp tf ds es tree ts g = Some (p, j) \<longrightarrow> j = i"
      using snoc.prems(2) by simp
    have "map_get (fileTree (foldl (scanStep rp tf ds es tree ts) st files)) p = Some i"
      using ex all by (rule snoc.IH)
    then show ?thesis using False by (auto simp: map_get_scanStep split: option.splits)
  qed
qed

lemma contentReads_scanStep:
  "contentReads (scanStep rp tf ds es tree ts st f)
     = contentReads st @ (if stepReads rp tf ds es tree f then [name f] else [])"
  by (simp add: scanStep_def stepReads_def Let_def split: prod.splits)

lemma contentReads_scan:
  "contentReads (foldl (scanStep rp tf ds es tree ts) st files)
     = contentReads st @ map name (filter (stepReads rp tf ds es tree) files)"
  by (induction files rule: rev_induct) (simp_all add: contentReads_scanStep)

lemma distinct_name_eq:
  "distinct (map name files) \<Longrightarrow> f \<in> set files \<Longrightarrow> g \<in> set files \<Longrightarrow> name g = name f \<Longrightarrow> g = f"
  by (meson distinct_map inj_onD)

lemma map_get_scan_of_file:
  assumes d: "distinct (map name files)" and f: "f \<in> set files" and n: "name f = rp @ p"
  shows "map_get (fileTree (scanArchive rp tf ds es tree files)) p
         = (case stepWrite rp tf ds es tree (hasTsConfigIn rp files) f of
              None \<Rightarrow> None
            | Some (q, i) \<Rightarrow> Some i)"
proof (cases "stepWrite rp tf ds es tree (hasTsConfigIn rp files) f")
  case None
  have "\<forall>g \<in> set files. \<forall>j. stepWrite rp tf ds es tree (hasTsConfigIn rp files) g \<noteq> Some (p, j)"
  proof (intro ballI allI notI)
    fix g j assume g: "g \<in> set files"
      and w: "stepWrite rp tf ds es tree (hasTsConfigIn rp files) g = Some (p, j)"
    have "name g = name f" using stepWrite_name [OF w] n by simp
    then have "g = f" using d f g by (rule distinct_name_eq [rotated 3])
    then show False using w None by simp
  qed
  then have "map_get (fileTree (scanArchive rp tf ds es tree files)) p
               = map_get (fileTree initialScan) p"
    unfolding scanArchive_def by (rule map_get_scan_unwritten)
  then show ?thesis using None by (simp add: initialScan_def map_get_def)
next
  case (Some w)
  obtain q i where w: "w = (q, i)" by (cases w)
  have "name f = rp @ q" using stepWrite_name Some w by blast
  then have "q = p" using n by simp
  then have "stepWrite rp tf ds es tree (hasTsConfigIn rp files) f = Some (p, i)"
    using Some w by simp
  then have "map_get (fileTree (scanArchive rp tf ds es tree files)) p = Some i"
    unfolding scanArchive_def using d f by (rule map_get_scan_written [rotated 2])
  then show ?thesis using Some w by simp
qed

lemma stepWrite_of_file:
  "\<not> dir f \<Longrightarrow> name f = rp @ p \<Longrightarrow>
   stepWrite rp tf ds es tree ts f
     = (if \<not> selected tf ds es p then None
        else if tree \<and> \<not> isReadme p then Some (p, placeholder)
        else if shouldSkipFile p (utf8Length (asyncString f)) (asyncString f) ts then None
        else Some (p, fst (storedEntry (asyncString f))))"
  by (simp add: stepWrite_def startsWith_appendI Let_def)

lemma hasTsConfigIn_iff:
  "hasTsConfigIn rp files
     = (\<exists>g \<in> set files. startsWith (name g) rp \<and> endsWith (name g) (js ''tsconfig.json''))"
  by (auto simp: hasTsConfigIn_def list_ex_iff)

text \<open>
  The entry of a \<open>.js\<close> or \<open>.mjs\<close> file in the \<open>fileTree\<close> of a FULL-mode scan.
\<close>

lemma js_in_fileTree_iff_tsconfig:
  assumes "distinct (map name files)"
    and "fileObj \<in> set files"
    and "\<not> dir fileObj"
    and "name fileObj = rootPrefix @ path"
    and "endsWith path (js ''.js'') \<or> endsWith path (js ''.mjs'')"
  shows "map_get (fileTree (scanArchive rootPrefix targetFile finalTargetDirs targetExts False files))
           path
         = (if \<exists>g \<in> set files. startsWith (name g) rootPrefix
                                  \<and> endsWith (name g) (js ''tsconfig.json'')
            then None
            else if selected targetFile finalTargetDirs targetExts path
                    \<and> \<not> shouldSkipFile path (utf8Length (asyncString fileObj))
                          (asyncString fileObj) False
            then Some (fst (storedEntry (asyncString fileObj)))
            else None)"
proof -
  have ts: "shouldSkipFile path (utf8Length (asyncString fileObj)) (asyncString fileObj) True"
    using assms(5) by (auto simp: shouldSkipFile_def Let_def)
  show ?thesis
    unfolding map_get_scan_of_file [OF assms(1,2,4)] stepWrite_of_file [OF assms(3,4)]
      hasTsConfigIn_iff [symmetric]
    using ts by (cases "hasTsConfigIn rootPrefix files") simp_all
qed


text \<open>
  C6, as amended: under TREE mode, a selected file whose relative path does not end in
  \<open>readme.md\<close> (letters compared without case) is recorded as the placeholder of size 0
  and empty content, its content is not read and no exclusion rule is applied; a selected
  file whose relative path does end in \<open>readme.md\<close> has its content read and is stored
  unless \<open>shouldSkipFile\<close> drops it.
\<close>

theorem tree_mode_placeholders:
  assumes "distinct (map name files)"
    and "fileObj \<in> set files"
    and "\<not> dir fileObj"
    and "name fileObj = rootPrefix @ path"
    and "selected targetFile finalTargetDirs targetExts path"
    and "st = scanArchive rootPrefix targetFile finalTargetDirs targetExts True files"
  shows "(if isReadme path
          then name fileObj \<in> set (contentReads st)
               \<and> map_get (fileTree st) path
                   = (if shouldSkipFile path (utf8Length (asyncString fileObj)) (asyncString fileObj)
                           (hasTsConfigIn rootPrefix files)
                      then None else Some (fst (storedEntry (asyncString fileObj))))
          else name fileObj \<notin> set (contentReads st)
               \<and> map_get (fileTree st) path
                   = Some \<lparr> f_size = 0, f_content = [], f_isTruncated = None \<rparr>)"
proof -
  have rd: "stepReads rootPrefix targetFile finalTargetDirs targetExts True fileObj = isReadme path"
    using assms(3,4,5) by (simp add: stepReads_def startsWith_appendI Let_def)
  have "name fileObj \<in> set (contentReads st)
          \<longleftrightarrow> stepReads rootPrefix targetFile finalTargetDirs targetExts True fileObj"
  proof
    assume "name fileObj \<in> set (contentReads st)"
    then obtain g where g: "g \<in> set files" "name g = name fileObj"
        and r: "stepReads rootPrefix targetFile finalTargetDirs targetExts True g"
      unfolding assms(6) scanArchive_def contentReads_scan by (auto simp: initialScan_def)
    have "g = fileObj" using assms(1,2) g by (rule distinct_name_eq)
    then show "stepReads rootPrefix targetFile finalTargetDirs targetExts True fileObj"
      using r by simp
  next
    assume "stepReads rootPrefix targetFile finalTargetDirs targetExts True fileObj"
    then show "name fileObj \<in> set (contentReads st)"
      unfolding assms(6) scanArchive_def contentReads_scan using assms(2) by auto
  qed
  then have reads: "name fileObj \<in> set (contentReads st) \<longleftrightarrow> isReadme path"
    using rd by simp
  have tree: "map_get (fileTree st) path
      = (if isReadme path
         then (if shouldSkipFile path (utf8Length (asyncString fileObj)) (asyncString fileObj)
                    (hasTsConfigIn rootPrefix files)
               then None else Some (fst (storedEntry (asyncString fileObj))))
         else Some placeholder)"
    unfolding assms(6) map_get_scan_of_file [OF assms(1,2,4)] stepWrite_of_file [OF assms(3,4)]
    using assms(5) by simp
  show ?thesis
    using reads tree by (simp add: placeholder_def)
qed


theorem tree_mode_placeholders_witness:
  "map_get (fileTree (scanArchive (js ''r-main/'') None [] [] True
       [\<lparr> name = js ''r-main/pnpm-lock.yaml'', dir = False, asyncString = js ''lock'' \<rparr>]))
     (js ''pnpm-lock.yaml'')
   = Some \<lparr> f_size = 0, f_content = [], f_isTruncated = None \<rparr>
   \<and> js ''r-main/pnpm-lock.yaml''
       \<notin> set (contentReads (scanArchive (js ''r-main/'') None [] [] True
           [\<lparr> name = js ''r-main/pnpm-lock.yaml'', dir = False, asyncString = js ''lock'' \<rparr>]))"
proof -
  let ?f = "\<lparr> name = js ''r-main/pnpm-lock.yaml'', dir = False, asyncString = js ''lock'' \<rparr>"
  have 1: "distinct (map name [?f])" by simp
  have 2: "?f \<in> set [?f]" by simp
  have 3: "\<not> dir ?f" by simp
  have 4: "name ?f = js ''r-main/'' @ js ''pnpm-lock.yaml''" by (simp add: js_def)
  have 5: "selected None [] [] (js ''pnpm-lock.yaml'')" by code_simp
  have 6: "\<not> isReadme (js ''pnpm-lock.yaml'')" by code_simp
  show ?thesis
    using tree_mode_placeholders [OF 1 2 3 4 5 refl] 6 by simp
qed

text \<open>
  C6, as stated, fails: the file \<open>myreadme.md\<close> has a filename that is not \<open>readme.md\<close>,
  whatever the case of the letters, yet under TREE mode its content is read and stored, since
  the test of the source is that the path ends in \<open>readme.md\<close>.
\<close>

theorem tree_mode_filename_counterexample:
  "orEmpty (pop (split_js 0x2F (js ''myreadme.md''))) = js ''myreadme.md''
   \<and> toLowerCase (js ''myreadme.md'') \<noteq> js ''readme.md''
   \<and> scanArchive (js ''r-main/'') None [] [] True
        [\<lparr> name = js ''r-main/myreadme.md'', dir = False, asyncString = js ''hello'' \<rparr>]
      = \<lparr> fileTree = [(js ''myreadme.md'',
                        \<lparr> f_size = 5, f_content = js ''hello'', f_isTruncated = Some False \<rparr>)],
          originalTotalSize = 5, displayTotalSize = 5,
          contentReads = [js ''r-main/myreadme.md''] \<rparr>"
proof -
  have a: "orEmpty (pop (split_js 0x2F (js ''myreadme.md''))) = js ''myreadme.md''" by code_simp
  have b: "toLowerCase (js ''myreadme.md'') \<noteq> js ''readme.md''" by code_simp
  have nm: "js ''r-main/myreadme.md'' = js ''r-main/'' @ js ''myreadme.md''" by (simp add: js_def)
  have "\<not> endsWith (js ''r-main/myreadme.md'') (js ''tsconfig.json'')" by code_simp
  then have ts: "\<not> hasTsConfigIn (js ''r-main/'')
        [\<lparr> name = js ''r-main/'' @ js ''myreadme.md'', dir = False, asyncString = js ''hello'' \<rparr>]"
    by (simp add: hasTsConfigIn_def nm)
  have sel: "selected None [] [] (js ''myreadme.md'')" by code_simp
  have rd: "isReadme (js ''myreadme.md'')" by code_simp
  then have tr: "\<not> (True \<and> \<not> isReadme (js ''myreadme.md''))" by simp
  have lock: "\<not> matchesLock (js ''myreadme.md'')" by code_simp
  have ext: "orEmpty (pop (split_js 0x2E (toLowerCase (js ''myreadme.md'')))) = js ''md''"
    by code_simp
  have e1: "js ''.'' @ js ''md'' \<notin> set imageExtensions" by code_simp
  have e2: "js ''.'' @ js ''md'' \<notin> set binaryExtensions" by code_simp
  have nb: "\<not> isBinaryContent (js ''hello'')"
    by (simp add: isBinaryContent_count js_def nonPrintableCode_def)
  have u: "utf8Length (js ''hello'') = 5" by code_simp
  have sk: "\<not> shouldSkipFile (js ''myreadme.md'') (utf8Length (js ''hello'')) (js ''hello'') False"
    using lock e1 e2 nb by (simp add: shouldSkipFile_iff ext u MAX_FILE_SIZE_def)
  have se: "storedEntry (js ''hello'')
              = (\<lparr> f_size = 5, f_content = js ''hello'', f_isTruncated = Some False \<rparr>, 5)"
    by (simp add: storedEntry_def u MAX_DISPLAY_FILE_SIZE_def)
  have "scanArchive (js ''r-main/'') None [] [] True
          [\<lparr> name = js ''r-main/'' @ js ''myreadme.md'', dir = False, asyncString = js ''hello'' \<rparr>]
        = \<lparr> fileTree = [(js ''myreadme.md'', fst (storedEntry (js ''hello'')))],
            originalTotalSize = utf8Length (js ''hello''),
            displayTotalSize = snd (storedEntry (js ''hello'')),
            contentReads = [js ''r-main/'' @ js ''myreadme.md''] \<rparr>"
    by (rule scanArchive_single [OF ts sel tr sk])
  then show ?thesis
    using a b by (simp add: se u nm)
qed

lemma truthy_Some: "t \<noteq> [] \<Longrightarrow> truthy (Some t)"
  by (simp add: truthy_def)

lemma processArchive_target:
  "r_targetFile r = Some t \<Longrightarrow> t \<noteq> [] \<Longrightarrow>
   processArchive r b files
     = (case map_get (fileTree (scanArchive (rootPrefixOf (r_repo r) b) (Some t)
                         (r_finalTargetDirs r) (r_targetExts r) (r_isTreeMode r) files)) t of
          None \<Rightarrow> Inl (Error (js ''File not found: '' @ t))
        | Some fileEntry \<Rightarrow> Inr (f_content fileEntry))"
  by (simp add: processArchive_def renderResult_def truthy_Some orElse_def split: option.splits)

text \<open>
  C10: with a single-file target and TREE mode, when the archive that was fetched has a
  file member at the target under the root prefix and the target does not end in
  \<open>readme.md\<close>, \<open>processGitHubRepository\<close> returns the empty string; no content is read
  during the scan, and nothing is assumed about the name or the content of the target, so
  none of the exclusions plays a part.
\<close>

theorem tree_target_placeholder:
  assumes "resolveReference parseURL ps = Inr r"
    and "r_targetFile r = Some t"
    and "t \<noteq> []"
    and "r_isTreeMode r"
    and "fetchArchive net (r_owner r) (r_repo r) (r_branch r) token = (Inr (b, resp), sent)"
    and "fileObj \<in> set (zipFiles resp)"
    and "\<not> dir fileObj"
    and "name fileObj = rootPrefixOf (r_repo r) b @ t"
    and "\<not> isReadme t"
  shows "processGitHubRepository parseURL net ps token = (Inr [], sent)
         \<and> contentReads (scanArchive (rootPrefixOf (r_repo r) b) (r_targetFile r)
              (r_finalTargetDirs r) (r_targetExts r) (r_isTreeMode r) (zipFiles resp)) = []"
proof -
  let ?rp = "rootPrefixOf (r_repo r) b"
  let ?ds = "r_finalTargetDirs r"
  let ?es = "r_targetExts r"
  let ?files = "zipFiles resp"
  let ?ts = "hasTsConfigIn ?rp ?files"
  have sel: "\<And>p. selected (Some t) ?ds ?es p = (p = t)"
    using assms(3) by (auto simp: selected_def truthy_Some)
  have w: "stepWrite ?rp (Some t) ?ds ?es True ?ts fileObj = Some (t, placeholder)"
    using assms(7,8,9) by (simp add: stepWrite_of_file sel)
  have all: "\<forall>g \<in> set ?files. \<forall>j. stepWrite ?rp (Some t) ?ds ?es True ?ts g = Some (t, j)
               \<longrightarrow> j = placeholder"
    using assms(9) by (auto simp: stepWrite_def sel Let_def split: if_splits)
  have "map_get (fileTree (scanArchive ?rp (Some t) ?ds ?es True ?files)) t = Some placeholder"
    unfolding scanArchive_def
    by (rule map_get_scan_agreed) (use w assms(6) all in auto)
  then have pa: "processArchive r b ?files = Inr []"
    using assms(2,3,4) by (simp add: processArchive_target placeholder_def)
  have "filter (stepReads ?rp (Some t) ?ds ?es True) ?files = []"
    using assms(9) by (auto simp: filter_empty_conv stepReads_def sel Let_def split: if_splits)
  then have rd: "contentReads (scanArchive ?rp (Some t) ?ds ?es True ?files) = []"
    by (simp add: scanArchive_def contentReads_scan initialScan_def)
  show ?thesis
    using pa rd assms(1,2,4,5) by (simp add: processGitHubRepository_def)
qed


theorem tree_target_placeholder_witness:
  "processGitHubRepository (\<lambda>u. Inr (js ''/o/r''))
     (\<lambda>q. \<lparr> status = 200, statusText = js ''OK'',
             zipFiles = [\<lparr> name = js ''r-main/pnpm-lock.yaml'', dir = False,
                           asyncString = js ''lock'' \<rparr>] \<rparr>)
     \<lparr> p_url = js ''github.com/o/r'', p_dir = None, p_ext = None, p_branch = None,
       p_file = Some (js ''pnpm-lock.yaml''), p_mode = Some (js ''tree'') \<rparr>
     None
   = (Inr [], [zipRequest (js ''o'') (js ''r'') (js ''main'') None])"
proof -
  let ?parse = "\<lambda>u :: jsstring. Inr (js ''/o/r'') :: jsstring + jsstring"
  let ?f = "\<lparr> name = js ''r-main/pnpm-lock.yaml'', dir = False, asyncString = js ''lock'' \<rparr>"
  let ?resp = "\<lparr> status = 200, statusText = js ''OK'', zipFiles = [?f] \<rparr>"
  let ?net = "\<lambda>q :: request. ?resp"
  let ?ps = "\<lparr> p_url = js ''github.com/o/r'', p_dir = None, p_ext = None, p_branch = None,
              p_file = Some (js ''pnpm-lock.yaml''), p_mode = Some (js ''tree'') \<rparr>"
  let ?r = "\<lparr> r_owner = js ''o'', r_repo = js ''r'', r_branch = js ''main'',
             r_finalTargetDirs = [], r_targetExts = [],
             r_targetFile = Some (js ''pnpm-lock.yaml''), r_isTreeMode = True \<rparr>"
  have segs: "filter (\<lambda>s. s \<noteq> []) (split_js 0x2F (js ''/o/r'')) = [js ''o'', js ''r'']"
    by code_simp
  have pi: "pathInfo [] = (None, [], None)" by (simp add: pathInfo_def truthy_def)
  have sw: "\<not> startsWith (js ''pnpm-lock.yaml'') (js ''/'')" by code_simp
  have ne: "js ''pnpm-lock.yaml'' \<noteq> []" by (simp add: js_def)
  have 1: "resolveReference ?parse ?ps = Inr ?r"
    using sw ne
    by (simp add: resolveReference_def segs pi queryDirsOf_def queryExtsOf_def orElse_def
          truthy_def Let_def)
  have 2: "r_targetFile ?r = Some (js ''pnpm-lock.yaml'')" by simp
  have 4: "r_isTreeMode ?r" by simp
  have 5: "fetchArchive ?net (r_owner ?r) (r_repo ?r) (r_branch ?r) None
             = (Inr (js ''main'', ?resp), [zipRequest (js ''o'') (js ''r'') (js ''main'') None])"
    by (simp add: fetchArchive_def fetchZip_def ok_def)
  have 6: "?f \<in> set (zipFiles ?resp)" by simp
  have 7: "\<not> dir ?f" by simp
  have 8: "name ?f = rootPrefixOf (r_repo ?r) (js ''main'') @ js ''pnpm-lock.yaml''"
    by (simp add: rootPrefixOf_def js_def)
  have 9: "\<not> isReadme (js ''pnpm-lock.yaml'')" by code_simp
  show ?thesis
    using tree_target_placeholder [of ?parse ?ps ?r "js ''pnpm-lock.yaml''" ?net None
            "js ''main''" ?resp _ ?f, OF 1 2 ne 4 5 6 7 8 9]
    by simp
qed

lemma file_not_found_status:
  assumes "\<not> includes_js (toLowerCase (js ''File not found: '' @ t)) (js ''invalid url'')"
    and "\<not> includes_js (toLowerCase (js ''File not found: '' @ t))
             (js ''invalid github repository url format'')"
    and "\<not> includes_js (toLowerCase (js ''File not found: '' @ t)) (js ''arguments are required'')"
    and "\<not> includes_js (toLowerCase (js ''File not found: '' @ t)) (js ''url parameter is required'')"
    and "\<not> includes_js (toLowerCase (js ''File not found: '' @ t))
             (js ''url must be a non-empty string'')"
  shows "mapGitHubErrorToStatus (Error (js ''File not found: '' @ t)) = 404"
proof -
  have l: "toLowerCase (js ''File not found: '') = js ''file not found: ''" by code_simp
  have "startsWith (js ''file not found: '' @ toLowerCase t) (js ''file not found'')"
    by (simp add: startsWith_def js_def)
  then have "includes_js (toLowerCase (js ''File not found: '' @ t)) (js ''file not found'')"
    by (simp add: toLowerCase_append l includes_js_prefix)
  then show ?thesis using assms by (simp add: mapGitHubErrorToStatus_def)
qed

lemma target_absent_iff:
  assumes "r_targetFile r = Some t" and "t \<noteq> []"
  shows "processArchive r b files = Inl (Error (js ''File not found: '' @ t))
         \<longleftrightarrow> map_get (fileTree (scanArchive (rootPrefixOf (r_repo r) b) (Some t)
                  (r_finalTargetDirs r) (r_targetExts r) (r_isTreeMode r) files)) t = None"
  using assms by (simp add: processArchive_target split: option.splits)

text \<open>
  C3: at a single-file target named \<open>invalid url.txt\<close> that the archive does not have,
  the pipeline fails with the \<open>File not found\<close> error, as it does for every absent target
  (\<open>target_absent_iff\<close>), but \<open>mapGitHubErrorToStatus\<close> gives this error the status 400:
  it looks for the words \<open>invalid url\<close> in the message, which quotes the target, before it
  looks for \<open>file not found\<close>. For a target without any of the five phrases of the first
  test the status is 404 (\<open>file_not_found_status\<close>).
\<close>

theorem file_not_found_status_400:
  "processArchive
     \<lparr> r_owner = js ''o'', r_repo = js ''r'', r_branch = js ''main'', r_finalTargetDirs = [],
       r_targetExts = [], r_targetFile = Some (js ''invalid url.txt''), r_isTreeMode = False \<rparr>
     (js ''main'')
     [\<lparr> name = js ''r-main/a.txt'', dir = False, asyncString = js ''hi'' \<rparr>]
   = Inl (Error (js ''File not found: invalid url.txt''))
   \<and> mapGitHubErrorToStatus (Error (js ''File not found: invalid url.txt'')) = 400"
proof -
  let ?r = "\<lparr> r_owner = js ''o'', r_repo = js ''r'', r_branch = js ''main'', r_finalTargetDirs = [],
       r_targetExts = [], r_targetFile = Some (js ''invalid url.txt''), r_isTreeMode = False \<rparr>"
  let ?f = "\<lparr> name = js ''r-main/a.txt'', dir = False, asyncString = js ''hi'' \<rparr>"
  have ne: "js ''invalid url.txt'' \<noteq> []" by (simp add: js_def)
  have nn: "js ''r-main/a.txt'' \<noteq> js ''r-main/'' @ js ''invalid url.txt''" by (simp add: js_def)
  have rp: "rootPrefixOf (js ''r'') (js ''main'') = js ''r-main/''"
    by (simp add: rootPrefixOf_def js_def)
  have "\<forall>g \<in> set [?f]. \<forall>j. stepWrite (js ''r-main/'') (Some (js ''invalid url.txt'')) [] [] False
            (hasTsConfigIn (js ''r-main/'') [?f]) g \<noteq> Some (js ''invalid url.txt'', j)"
    using nn by (auto dest: stepWrite_name)
  then have "map_get (fileTree (scanArchive (js ''r-main/'') (Some (js ''invalid url.txt'')) [] []
                 False [?f])) (js ''invalid url.txt'') = map_get (fileTree initialScan) (js ''invalid url.txt'')"
    unfolding scanArchive_def by (rule map_get_scan_unwritten)
  then have none: "map_get (fileTree (scanArchive (js ''r-main/'') (Some (js ''invalid url.txt''))
                 [] [] False [?f])) (js ''invalid url.txt'') = None"
    by (simp add: initialScan_def map_get_def)
  have pa: "processArchive ?r (js ''main'') [?f]
              = Inl (Error (js ''File not found: '' @ js ''invalid url.txt''))"
    using none by (simp add: processArchive_target [where t = "js ''invalid url.txt''"] ne rp)
  have cat: "js ''File not found: '' @ js ''invalid url.txt'' = js ''File not found: invalid url.txt''"
    by (simp add: js_def)
  have inc: "includes_js (toLowerCase (js ''File not found: invalid url.txt'')) (js ''invalid url'')"
    by code_simp
  have st: "mapGitHubErrorToStatus (Error (js ''File not found: invalid url.txt'')) = 400"
    using inc by (simp add: mapGitHubErrorToStatus_def)
  show ?thesis using pa st unfolding cat by simp
qed

text \<open>
  C9, as stated, fails: \<open>httpbin.org/a/b\<close> has no scheme, and with \<open>https://\<close> in front
  it parses into a path of two segments, but it starts with \<open>http\<close>, so the source hands
  it to the parser as it is and the resolution fails with the \<open>Invalid URL\<close> error.
\<close>

theorem scheme_test_counterexample:
  "\<not> spec_hasScheme (js ''httpbin.org/a/b'')
   \<and> exampleParser (js ''https://'' @ js ''httpbin.org/a/b'') = Inr (js ''/a/b'')
   \<and> length (filter (\<lambda>s. s \<noteq> []) (split_js 0x2F (js ''/a/b''))) = 2
   \<and> resolveReference exampleParser
        \<lparr> p_url = js ''httpbin.org/a/b'', p_dir = None, p_ext = None, p_branch = None,
          p_file = None, p_mode = None \<rparr>
      = Inl (Error (js ''Invalid URL: Invalid URL''))"
proof -
  have a: "\<not> spec_hasScheme (js ''httpbin.org/a/b'')" by code_simp
  have b: "exampleParser (js ''https://'' @ js ''httpbin.org/a/b'') = Inr (js ''/a/b'')"
    by (simp add: exampleParser_def js_def)
  have c: "length (filter (\<lambda>s. s \<noteq> []) (split_js 0x2F (js ''/a/b''))) = 2" by code_simp
  have u: "urlToParse (js ''httpbin.org/a/b'') = js ''httpbin.org/a/b''" by code_simp
  have p: "exampleParser (js ''httpbin.org/a/b'') = Inl (js ''Invalid URL'')"
    by (simp add: exampleParser_def js_def)
  have d: "resolveReference exampleParser
        \<lparr> p_url = js ''httpbin.org/a/b'', p_dir = None, p_ext = None, p_branch = None,
          p_file = None, p_mode = None \<rparr>
      = Inl (Error (js ''Invalid URL: Invalid URL''))"
    by (simp add: resolveReference_def u p) (simp add: js_def)
  show ?thesis using a b c d by simp
qed


section \<open>The FULL-mode output\<close>

lemma includes_js_infix: "includes_js (a @ p @ c) p"
proof (induction a)
  case Nil
  show ?case by (simp add: includes_js_prefix startsWith_appendI)
next
  case (Cons x a)
  then show ?case by simp
qed

lemma block_in_concat:
  assumes "e \<in> set es"
  shows "\<exists>a c. pre @ concat (map blk es) = a @ blk e @ c"
proof -
  from assms obtain xs ys where "es = xs @ e # ys" by (auto simp: in_set_conv_decomp)
  then have "pre @ concat (map blk es)
               = (pre @ concat (map blk xs)) @ blk e @ concat (map blk ys)"
    by simp
  then show ?thesis by blast
qed

lemma map_get_Some_mem: "map_get m k = Some v \<Longrightarrow> (k, v) \<in> set m"
  by (simp add: map_get_def map_of_SomeD)

lemma map_get_None_notin: "map_get m k = None \<Longrightarrow> k \<notin> fst ` set m"
  by (simp add: map_get_def map_of_eq_None_iff)

lemma processArchive_full:
  "\<not> truthy (r_targetFile r) \<Longrightarrow> \<not> r_isTreeMode r \<Longrightarrow>
   processArchive r b files
     = Inr (renderFull (scanArchive (rootPrefixOf (r_repo r) b) (r_targetFile r)
              (r_finalTargetDirs r) (r_targetExts r) False files))"
  by (simp add: processArchive_def renderResult_def)

lemma renderFull_explicit:
  "renderFull st
     = (js ''# '' @ [0xD83D, 0xDCC1] @ js '' File Tree'' @ [0x0A, 0x0A]
        @ createTreeDisplay (fileTree st) True
        @ [0x0A] @ js ''# '' @ [0xD83D, 0xDCDD] @ js '' Files (Total: ''
        @ kbToFixed2 (originalTotalSize st) @ js '' KB'' @ [0x2192]
        @ kbToFixed2 (displayTotalSize st) @ js '' KB)'' @ [0x0A, 0x0A])
       @ concat (map (\<lambda>(p, info). [0x60, 0x60, 0x60] @ p @ [0x0A] @ f_content info @ [0x0A]
                                     @ [0x60, 0x60, 0x60] @ [0x0A, 0x0A])
                   (fileTree st))"
proof -
  have "(\<lambda>(path, info). [0x60, 0x60, 0x60] @ path @ nl @ f_content info @ nl
                                    @ [0x60, 0x60, 0x60] @ nl @ nl)
        = (\<lambda>(p, info). [0x60, 0x60, 0x60] @ p @ [0x0A] @ f_content info @ [0x0A]
                                     @ [0x60, 0x60, 0x60] @ [0x0A, 0x0A :: codeunit])"
    by (simp add: nl_def fun_eq_iff)
  then show ?thesis
    by (simp add: renderFull_def nl_def folderIcon_def memoIcon_def arrow_def)
qed

lemma scanStep_of_file:
  "\<not> dir f \<Longrightarrow> name f = rp @ p \<Longrightarrow>
   scanStep rp tf ds es tree ts st f
     = (if \<not> selected tf ds es p then st
        else if tree \<and> \<not> isReadme p then st \<lparr> fileTree := map_set p placeholder (fileTree st) \<rparr>
        else if shouldSkipFile p (utf8Length (asyncString f)) (asyncString f) ts
        then st \<lparr> contentReads := contentReads st @ [name f] \<rparr>
        else st \<lparr> contentReads := contentReads st @ [name f],
                  fileTree := map_set p (fst (storedEntry (asyncString f))) (fileTree st),
                  originalTotalSize := originalTotalSize st + utf8Length (asyncString f),
                  displayTotalSize := displayTotalSize st + snd (storedEntry (asyncString f)) \<rparr>)"
  by (simp add: scanStep_def startsWith_appendI Let_def split: prod.splits)

lemma kbToFixed2_small:
  "kbToFixed2 1 = js ''0.00''" "kbToFixed2 (Suc 0) = js ''0.00''" "kbToFixed2 2 = js ''0.00''"
  by (simp_all add: kbToFixed2_def decimal.simps js_def)

text \<open>
  C7: in FULL mode without a single-file target, \<open>processGitHubRepository\<close> returns the
  heading and tree drawn from the \<open>fileTree\<close> of the scan, the line of totals, and one
  fenced block per entry of that \<open>fileTree\<close>. For a file whose relative path ends in
  \<open>.js\<close> or \<open>.mjs\<close>: when some member under the root prefix has a name ending in
  \<open>tsconfig.json\<close>, the path is no entry of the \<open>fileTree\<close>, so the output has neither a
  block nor a tree line made from it; when there is no such member, the file is an entry,
  and its fenced block with its stored content occurs in the output, exactly when it is
  selected by the filters and passes the other exclusions (\<open>shouldSkipFile\<close> without the
  TypeScript rule, see \<open>shouldSkipFile_iff\<close>); otherwise it is no entry either.
\<close>

theorem js_in_full_output_iff_tsconfig:
  assumes "resolveReference parseURL ps = Inr r"
    and "\<not> truthy (r_targetFile r)"
    and "\<not> r_isTreeMode r"
    and "fetchArchive net (r_owner r) (r_repo r) (r_branch r) token = (Inr (b, resp), sent)"
    and "distinct (map name (zipFiles resp))"
    and "fileObj \<in> set (zipFiles resp)"
    and "\<not> dir fileObj"
    and "name fileObj = rootPrefixOf (r_repo r) b @ path"
    and "endsWith path (js ''.js'') \<or> endsWith path (js ''.mjs'')"
    and "st = scanArchive (rootPrefixOf (r_repo r) b) (r_targetFile r) (r_finalTargetDirs r)
                (r_targetExts r) False (zipFiles resp)"
    and "block = (\<lambda>(p, info). [0x60, 0x60, 0x60] @ p @ [0x0A] @ f_content info @ [0x0A]
                                 @ [0x60, 0x60, 0x60] @ [0x0A, 0x0A])"
  shows "\<exists>output.
           processGitHubRepository parseURL net ps token = (Inr output, sent)
           \<and> output
               = (js ''# '' @ [0xD83D, 0xDCC1] @ js '' File Tree'' @ [0x0A, 0x0A]
                  @ createTreeDisplay (fileTree st) True
                  @ [0x0A] @ js ''# '' @ [0xD83D, 0xDCDD] @ js '' Files (Total: ''
                  @ kbToFixed2 (originalTotalSize st) @ js '' KB'' @ [0x2192]
                  @ kbToFixed2 (displayTotalSize st) @ js '' KB)'' @ [0x0A, 0x0A])
                 @ concat (map block (fileTree st))
           \<and> (if \<exists>g \<in> set (zipFiles resp). startsWith (name g) (rootPrefixOf (r_repo r) b)
                                              \<and> endsWith (name g) (js ''tsconfig.json'')
               then path \<notin> fst ` set (fileTree st)
               else if selected (r_targetFile r) (r_finalTargetDirs r) (r_targetExts r) path
                       \<and> \<not> shouldSkipFile path (utf8Length (asyncString fileObj))
                             (asyncString fileObj) False
               then (path, fst (storedEntry (asyncString fileObj))) \<in> set (fileTree st)
                    \<and> includes_js output (block (path, fst (storedEntry (asyncString fileObj))))
               else path \<notin> fst ` set (fileTree st))"
proof -
  let ?pre = "js ''# '' @ [0xD83D, 0xDCC1] @ js '' File Tree'' @ [0x0A, 0x0A]
                  @ createTreeDisplay (fileTree st) True
                  @ [0x0A] @ js ''# '' @ [0xD83D, 0xDCDD] @ js '' Files (Total: ''
                  @ kbToFixed2 (originalTotalSize st) @ js '' KB'' @ [0x2192]
                  @ kbToFixed2 (displayTotalSize st) @ js '' KB)'' @ [0x0A, 0x0A]"
  let ?out = "?pre @ concat (map block (fileTree st))"
  let ?e = "fst (storedEntry (asyncString fileObj))"
  have out: "renderFull st = ?out"
    unfolding assms(11) by (rule renderFull_explicit)
  have "processArchive r b (zipFiles resp) = Inr (renderFull st)"
    unfolding assms(10) using assms(2,3) by (rule processArchive_full)
  then have pg: "processGitHubRepository parseURL net ps token = (Inr ?out, sent)"
    using assms(1,4) by (simp add: processGitHubRepository_def out)
  have mg: "map_get (fileTree st) path
         = (if \<exists>g \<in> set (zipFiles resp). startsWith (name g) (rootPrefixOf (r_repo r) b)
                                  \<and> endsWith (name g) (js ''tsconfig.json'')
            then None
            else if selected (r_targetFile r) (r_finalTargetDirs r) (r_targetExts r) path
                    \<and> \<not> shouldSkipFile path (utf8Length (asyncString fileObj))
                          (asyncString fileObj) False
            then Some ?e
            else None)"
    unfolding assms(10) using assms(5,6,7,8,9) by (rule js_in_fileTree_iff_tsconfig)
  have inc: "(path, ?e) \<in> set (fileTree st) \<Longrightarrow> includes_js ?out (block (path, ?e))"
  proof -
    assume "(path, ?e) \<in> set (fileTree st)"
    then obtain a c where "?out = a @ block (path, ?e) @ c"
      using block_in_concat [of "(path, ?e)" "fileTree st" ?pre block] by blast
    then show ?thesis by (simp only: includes_js_infix)
  qed
  have final: "(if \<exists>g \<in> set (zipFiles resp). startsWith (name g) (rootPrefixOf (r_repo r) b)
                                              \<and> endsWith (name g) (js ''tsconfig.json'')
               then path \<notin> fst ` set (fileTree st)
               else if selected (r_targetFile r) (r_finalTargetDirs r) (r_targetExts r) path
                       \<and> \<not> shouldSkipFile path (utf8Length (asyncString fileObj))
                             (asyncString fileObj) False
               then (path, ?e) \<in> set (fileTree st) \<and> includes_js ?out (block (path, ?e))
               else path \<notin> fst ` set (fileTree st))"
    using mg inc by (auto dest: map_get_Some_mem map_get_None_notin split: if_splits)
  show ?thesis
    using pg final by blast
qed

theorem js_in_full_output_iff_tsconfig_witness:
  "processGitHubRepository (\<lambda>u. Inr (js ''/o/r''))
     (\<lambda>q. \<lparr> status = 200, statusText = js ''OK'',
             zipFiles = [\<lparr> name = js ''r-main/tsconfig.json'', dir = False, asyncString = js ''{}'' \<rparr>,
                         \<lparr> name = js ''r-main/dist/bundle.js'', dir = False, asyncString = js ''1;'' \<rparr>] \<rparr>)
     \<lparr> p_url = js ''github.com/o/r'', p_dir = None, p_ext = None, p_branch = None,
       p_file = None, p_mode = None \<rparr>
     None
   = (Inr (js ''# '' @ [0xD83D, 0xDCC1] @ js '' File Tree'' @ [0x0A, 0x0A]
           @ [0xD83D, 0xDCC4] @ js '' tsconfig.json (0.00 KB)'' @ [0x0A]
           @ [0x0A] @ js ''# '' @ [0xD83D, 0xDCDD] @ js '' Files (Total: 0.00 KB'' @ [0x2192]
           @ js ''0.00 KB)'' @ [0x0A, 0x0A]
           @ [0x60, 0x60, 0x60] @ js ''tsconfig.json'' @ [0x0A] @ js ''{}'' @ [0x0A]
           @ [0x60, 0x60, 0x60] @ [0x0A, 0x0A]),
      [zipRequest (js ''o'') (js ''r'') (js ''main'') None])
   \<and> processGitHubRepository (\<lambda>u. Inr (js ''/o/r''))
     (\<lambda>q. \<lparr> status = 200, statusText = js ''OK'',
             zipFiles = [\<lparr> name = js ''r-main/dist/bundle.js'', dir = False, asyncString = js ''1;'' \<rparr>] \<rparr>)
     \<lparr> p_url = js ''github.com/o/r'', p_dir = None, p_ext = None, p_branch = None,
       p_file = None, p_mode = None \<rparr>
     None
   = (Inr (js ''# '' @ [0xD83D, 0xDCC1] @ js '' File Tree'' @ [0x0A, 0x0A]
           @ [0xD83D, 0xDCC2] @ js '' dist'' @ [0x0A]
           @ js ''  '' @ [0xD83D, 0xDCC4] @ js '' bundle.js (0.00 KB)'' @ [0x0A]
           @ [0x0A] @ js ''# '' @ [0xD83D, 0xDCDD] @ js '' Files (Total: 0.00 KB'' @ [0x2192]
           @ js ''0.00 KB)'' @ [0x0A, 0x0A]
           @ [0x60, 0x60, 0x60] @ js ''dist/bundle.js'' @ [0x0A] @ js ''1;'' @ [0x0A]
           @ [0x60, 0x60, 0x60] @ [0x0A, 0x0A]),
      [zipRequest (js ''o'') (js ''r'') (js ''main'') None])"
proof -
  let ?parse = "\<lambda>u :: jsstring. Inr (js ''/o/r'') :: jsstring + jsstring"
  let ?t = "\<lparr> name = js ''r-main/tsconfig.json'', dir = False, asyncString = js ''{}'' \<rparr>"
  let ?b = "\<lparr> name = js ''r-main/dist/bundle.js'', dir = False, asyncString = js ''1;'' \<rparr>"
  let ?respA = "\<lparr> status = 200, statusText = js ''OK'', zipFiles = [?t, ?b] \<rparr>"
  let ?respB = "\<lparr> status = 200, statusText = js ''OK'', zipFiles = [?b] \<rparr>"
  let ?netA = "\<lambda>q :: request. ?respA"
  let ?netB = "\<lambda>q :: request. ?respB"
  let ?ps = "\<lparr> p_url = js ''github.com/o/r'', p_dir = None, p_ext = None, p_branch = None,
              p_file = None, p_mode = None \<rparr>"
  let ?r = "\<lparr> r_owner = js ''o'', r_repo = js ''r'', r_branch = js ''main'',
             r_finalTargetDirs = [], r_targetExts = [], r_targetFile = None,
             r_isTreeMode = False \<rparr>"
  let ?et = "\<lparr> f_size = 2, f_content = js ''{}'', f_isTruncated = Some False \<rparr>"
  let ?eb = "\<lparr> f_size = 2, f_content = js ''1;'', f_isTruncated = Some False \<rparr>"
  let ?block = "\<lambda>(p, info). [0x60, 0x60, 0x60] @ p @ [0x0A] @ f_content info @ [0x0A]
                                 @ [0x60, 0x60, 0x60] @ [0x0A, 0x0A :: codeunit]"
  have segs: "filter (\<lambda>s. s \<noteq> []) (split_js 0x2F (js ''/o/r'')) = [js ''o'', js ''r'']"
    by code_simp
  have pi: "pathInfo [] = (None, [], None)" by (simp add: pathInfo_def truthy_def)
  have 1: "resolveReference ?parse ?ps = Inr ?r"
    by (simp add: resolveReference_def segs pi queryDirsOf_def queryExtsOf_def orElse_def
          truthy_def Let_def)
  have 2: "\<not> truthy (r_targetFile ?r)" by (simp add: truthy_def)
  have 3: "\<not> r_isTreeMode ?r" by simp
  have 4: "fetchArchive ?netA (r_owner ?r) (r_repo ?r) (r_branch ?r) None
             = (Inr (js ''main'', ?respA), [zipRequest (js ''o'') (js ''r'') (js ''main'') None])"
          "fetchArchive ?netB (r_owner ?r) (r_repo ?r) (r_branch ?r) None
             = (Inr (js ''main'', ?respB), [zipRequest (js ''o'') (js ''r'') (js ''main'') None])"
    by (simp_all add: fetchArchive_def fetchZip_def ok_def)
  have ne: "js ''r-main/tsconfig.json'' \<noteq> js ''r-main/dist/bundle.js''" by (simp add: js_def)
  have 5: "distinct (map name (zipFiles ?respA))" "distinct (map name (zipFiles ?respB))"
    using ne by simp_all
  have 6: "?b \<in> set (zipFiles ?respA)" "?b \<in> set (zipFiles ?respB)" by simp_all
  have 7: "\<not> dir ?b" by simp
  have rp: "rootPrefixOf (js ''r'') (js ''main'') = js ''r-main/''"
    by (simp add: rootPrefixOf_def js_def)
  have 8: "name ?b = rootPrefixOf (r_repo ?r) (js ''main'') @ js ''dist/bundle.js''"
    by (simp add: rp) (simp add: js_def)
  have 9: "endsWith (js ''dist/bundle.js'') (js ''.js'') \<or> endsWith (js ''dist/bundle.js'') (js ''.mjs'')"
    by code_simp
  have nt: "name ?t = js ''r-main/'' @ js ''tsconfig.json''" 
    and nb: "name ?b = js ''r-main/'' @ js ''dist/bundle.js''"
    by (simp_all add: js_def)
  have t1: "startsWith (js ''r-main/tsconfig.json'') (js ''r-main/'')" by code_simp
  have t2: "endsWith (js ''r-main/tsconfig.json'') (js ''tsconfig.json'')" by code_simp
  have t3: "\<not> endsWith (js ''r-main/dist/bundle.js'') (js ''tsconfig.json'')" by code_simp
  have tsA: "hasTsConfigIn (js ''r-main/'') [?t, ?b]" using t1 t2 by (simp add: hasTsConfigIn_def)
  have tsB: "\<not> hasTsConfigIn (js ''r-main/'') [?b]" using t3 by (simp add: hasTsConfigIn_def)
  have selt: "selected None [] [] (js ''tsconfig.json'')" by code_simp
  have selb: "selected None [] [] (js ''dist/bundle.js'')" by code_simp
  have lockt: "\<not> matchesLock (js ''tsconfig.json'')" by code_simp
  have lockb: "\<not> matchesLock (js ''dist/bundle.js'')" by code_simp
  have extt: "orEmpty (pop (split_js 0x2E (toLowerCase (js ''tsconfig.json'')))) = js ''json''"
    by code_simp
  have extb: "orEmpty (pop (split_js 0x2E (toLowerCase (js ''dist/bundle.js'')))) = js ''js''"
    by code_simp
  have e1: "js ''.'' @ js ''json'' \<notin> set imageExtensions" "js ''.'' @ js ''js'' \<notin> set imageExtensions"
    by code_simp+
  have e2: "js ''.'' @ js ''json'' \<notin> set binaryExtensions" "js ''.'' @ js ''js'' \<notin> set binaryExtensions"
    by code_simp+
  have jt: "\<not> endsWith (js ''tsconfig.json'') (js ''.js'')" "\<not> endsWith (js ''tsconfig.json'') (js ''.mjs'')"
    by code_simp+
  have nbt: "\<not> isBinaryContent (js ''{}'')" and nbb: "\<not> isBinaryContent (js ''1;'')"
    by (simp_all add: isBinaryContent_count js_def nonPrintableCode_def)
  have ut: "utf8Length (js ''{}'') = 2" and ub: "utf8Length (js ''1;'') = 2" by code_simp+
  have skt: "\<not> shouldSkipFile (js ''tsconfig.json'') 2 (js ''{}'') True"
    using lockt e1 e2 jt nbt by (simp add: shouldSkipFile_iff extt MAX_FILE_SIZE_def)
  have skbT: "shouldSkipFile (js ''dist/bundle.js'') 2 (js ''1;'') True"
    using 9 by (simp add: shouldSkipFile_iff)
  have skbF: "\<not> shouldSkipFile (js ''dist/bundle.js'') 2 (js ''1;'') False"
    using lockb e1 e2 nbb by (simp add: shouldSkipFile_iff extb MAX_FILE_SIZE_def)
  have set: "storedEntry (js ''{}'') = (?et, 2)" and seb: "storedEntry (js ''1;'') = (?eb, 2)"
    by (simp_all add: storedEntry_def ut ub MAX_DISPLAY_FILE_SIZE_def)
  have stA: "scanArchive (js ''r-main/'') None [] [] False [?t, ?b]
      = \<lparr> fileTree = [(js ''tsconfig.json'', ?et)], originalTotalSize = 2, displayTotalSize = 2,
          contentReads = [js ''r-main/tsconfig.json'', js ''r-main/dist/bundle.js''] \<rparr>"
    using selt selb skt skbT
    by (simp add: scanArchive_def tsA initialScan_def
          scanStep_of_file [where p = "js ''tsconfig.json''", OF _ nt]
          scanStep_of_file [where p = "js ''dist/bundle.js''", OF _ nb] ut ub set)
  have stB: "scanArchive (js ''r-main/'') None [] [] False [?b]
      = \<lparr> fileTree = [(js ''dist/bundle.js'', ?eb)], originalTotalSize = 2, displayTotalSize = 2,
          contentReads = [js ''r-main/dist/bundle.js''] \<rparr>"
    using selb skbF tsB
    by (simp add: scanArchive_def initialScan_def
          scanStep_of_file [where p = "js ''dist/bundle.js''", OF _ nb] ub seb)
  have cdA: "createTreeDisplay [(js ''tsconfig.json'', ?et)] True
               = [0xD83D, 0xDCC4] @ js '' tsconfig.json (0.00 KB)'' @ [0x0A]"
  proof -
    have d: "addPathPrefixes [] (js ''tsconfig.json'') = [js ''tsconfig.json'']" by code_simp
    have s: "sort [js ''tsconfig.json''] = [js ''tsconfig.json'']" by simp
    have sp: "split_js 0x2F (js ''tsconfig.json'') = [js ''tsconfig.json'']" by code_simp
    have nsw: "\<not> startsWith (js ''tsconfig.json'') (js ''tsconfig.json'' @ js ''/'')" by code_simp
    show ?thesis
      using nsw
      by (simp add: createTreeDisplay_def d s treeLine_def sp Let_def repeat_js_def orElse_def
            pop_def map_get_def pageIcon_def nl_def kbToFixed2_small)
         (simp add: js_def)
  qed
  have cdB: "createTreeDisplay [(js ''dist/bundle.js'', ?eb)] True
               = [0xD83D, 0xDCC2] @ js '' dist'' @ [0x0A]
                 @ js ''  '' @ [0xD83D, 0xDCC4] @ js '' bundle.js (0.00 KB)'' @ [0x0A]"
  proof -
    have d: "addPathPrefixes [] (js ''dist/bundle.js'') = [js ''dist'', js ''dist/bundle.js'']"
      by code_simp
    have s: "sort [js ''dist'', js ''dist/bundle.js''] = [js ''dist'', js ''dist/bundle.js'']"
      by code_simp
    have sp: "split_js 0x2F (js ''dist/bundle.js'') = [js ''dist'', js ''bundle.js'']"
             "split_js 0x2F (js ''dist'') = [js ''dist'']" by code_simp+
    have sw: "startsWith (js ''dist/bundle.js'') (js ''dist'' @ js ''/'')"
             "\<not> startsWith (js ''dist'') (js ''dist'' @ js ''/'')"
             "\<not> startsWith (js ''dist'') (js ''dist/bundle.js'' @ js ''/'')"
             "\<not> startsWith (js ''dist/bundle.js'') (js ''dist/bundle.js'' @ js ''/'')"
      by code_simp+
    have nd: "js ''dist'' \<noteq> js ''dist/bundle.js''" "js ''bundle.js'' \<noteq> []" "js ''dist'' \<noteq> []"
      by (simp_all add: js_def)
    show ?thesis
      using sw nd
      by (simp add: createTreeDisplay_def d s treeLine_def sp Let_def repeat_js_def orElse_def
            pop_def map_get_def pageIcon_def openFolderIcon_def nl_def kbToFixed2_small)
         (simp add: js_def)
  qed
  let ?sent = "[zipRequest (js ''o'') (js ''r'') (js ''main'') None]"
  obtain outA where a1: "processGitHubRepository ?parse ?netA ?ps None = (Inr outA, ?sent)"
    and a2: "outA = (js ''# '' @ [0xD83D, 0xDCC1] @ js '' File Tree'' @ [0x0A, 0x0A]
                  @ createTreeDisplay (fileTree (scanArchive (rootPrefixOf (r_repo ?r) (js ''main''))
                        (r_targetFile ?r) (r_finalTargetDirs ?r) (r_targetExts ?r) False
                        (zipFiles ?respA))) True
                  @ [0x0A] @ js ''# '' @ [0xD83D, 0xDCDD] @ js '' Files (Total: ''
                  @ kbToFixed2 (originalTotalSize (scanArchive (rootPrefixOf (r_repo ?r) (js ''main''))
                        (r_targetFile ?r) (r_finalTargetDirs ?r) (r_targetExts ?r) False
                        (zipFiles ?respA))) @ js '' KB'' @ [0x2192]
                  @ kbToFixed2 (displayTotalSize (scanArchive (rootPrefixOf (r_repo ?r) (js ''main''))
                        (r_targetFile ?r) (r_finalTargetDirs ?r) (r_targetExts ?r) False
                        (zipFiles ?respA))) @ js '' KB)'' @ [0x0A, 0x0A])
                 @ concat (map ?block (fileTree (scanArchive (rootPrefixOf (r_repo ?r) (js ''main''))
                        (r_targetFile ?r) (r_finalTargetDirs ?r) (r_targetExts ?r) False
                        (zipFiles ?respA))))"
    using js_in_full_output_iff_tsconfig [of ?parse ?ps ?r ?netA None "js ''main''" ?respA _
            ?b "js ''dist/bundle.js''" _ ?block, OF 1 2 3 4(1) 5(1) 6(1) 7 8 9 refl refl]
    by blast
  obtain outB where b1: "processGitHubRepository ?parse ?netB ?ps None = (Inr outB, ?sent)"
    and b2: "outB = (js ''# '' @ [0xD83D, 0xDCC1] @ js '' File Tree'' @ [0x0A, 0x0A]
                  @ createTreeDisplay (fileTree (scanArchive (rootPrefixOf (r_repo ?r) (js ''main''))
                        (r_targetFile ?r) (r_finalTargetDirs ?r) (r_targetExts ?r) False
                        (zipFiles ?respB))) True
                  @ [0x0A] @ js ''# '' @ [0xD83D, 0xDCDD] @ js '' Files (Total: ''
                  @ kbToFixed2 (originalTotalSize (scanArchive (rootPrefixOf (r_repo ?r) (js ''main''))
                        (r_targetFile ?r) (r_finalTargetDirs ?r) (r_targetExts ?r) False
                        (zipFiles ?respB))) @ js '' KB'' @ [0x2192]
                  @ kbToFixed2 (displayTotalSize (scanArchive (rootPrefixOf (r_repo ?r) (js ''main''))
                        (r_targetFile ?r) (r_finalTargetDirs ?r) (r_targetExts ?r) False
                        (zipFiles ?respB))) @ js '' KB)'' @ [0x0A, 0x0A])
                 @ concat (map ?block (fileTree (scanArchive (rootPrefixOf (r_repo ?r) (js ''main''))
                        (r_targetFile ?r) (r_finalTargetDirs ?r) (r_targetExts ?r) False
                        (zipFiles ?respB))))"
    using js_in_full_output_iff_tsconfig [of ?parse ?ps ?r ?netB None "js ''main''" ?respB _
            ?b "js ''dist/bundle.js''" _ ?block, OF 1 2 3 4(2) 5(2) 6(2) 7 8 9 refl refl]
    by blast
  have a3: "outA = js ''# '' @ [0xD83D, 0xDCC1] @ js '' File Tree'' @ [0x0A, 0x0A]
           @ [0xD83D, 0xDCC4] @ js '' tsconfig.json (0.00 KB)'' @ [0x0A]
           @ [0x0A] @ js ''# '' @ [0xD83D, 0xDCDD] @ js '' Files (Total: 0.00 KB'' @ [0x2192]
           @ js ''0.00 KB)'' @ [0x0A, 0x0A]
           @ [0x60, 0x60, 0x60] @ js ''tsconfig.json'' @ [0x0A] @ js ''{}'' @ [0x0A]
           @ [0x60, 0x60, 0x60] @ [0x0A, 0x0A]"
    unfolding a2 by (simp add: rp stA cdA kbToFixed2_small) (simp add: js_def)
  have b3: "outB = js ''# '' @ [0xD83D, 0xDCC1] @ js '' File Tree'' @ [0x0A, 0x0A]
           @ [0xD83D, 0xDCC2] @ js '' dist'' @ [0x0A]
           @ js ''  '' @ [0xD83D, 0xDCC4] @ js '' bundle.js (0.00 KB)'' @ [0x0A]
           @ [0x0A] @ js ''# '' @ [0xD83D, 0xDCDD] @ js '' Files (Total: 0.00 KB'' @ [0x2192]
           @ js ''0.00 KB)'' @ [0x0A, 0x0A]
           @ [0x60, 0x60, 0x60] @ js ''dist/bundle.js'' @ [0x0A] @ js ''1;'' @ [0x0A]
           @ [0x60, 0x60, 0x60] @ [0x0A, 0x0A]"
    unfolding b2 by (simp add: rp stB cdB kbToFixed2_small) (simp add: js_def)
  show ?thesis
    using a1 b1 unfolding a3 b3 by simp
qed

end
